theory Spec2Isabelle
  imports Complex_Main "HOL-Library.AList"
begin

section \<open>Data model of the job service (src/backend/app.py)\<close>

text \<open>
  The service keeps two module-level dictionaries behind one lock. Python dictionaries
  keep insertion order, and the code depends on it (stable sorting of \<open>items()\<close>, the
  last writer winning when the idempotency index is rebuilt), so a dictionary is an
  association list: \<open>map_of\<close> is \<open>dict.get\<close>, \<open>AList.update\<close> is item assignment
  (in place for a present key, appended for a new one) and \<open>AList.delete\<close> is
  \<open>pop(key, None)\<close>. Floats (epoch seconds, elapsed seconds, scores) are reals.
\<close>

datatype JobStatusLiteral = Pending | Running | Done | Failed | Canceled | Timeout

record DetectedObject =
  ob_x :: real
  ob_y :: real
  ob_width :: real
  ob_height :: real
  ob_label :: string
  ob_score :: real

record DetectRequest =
  imageBase64 :: string
  minScore :: real
  debugSleepMs :: int

record DetectResponse =
  objects :: "DetectedObject list"
  modelVersion :: string
  latencyMs :: real
  dr_requestId :: string

record JobCreateRequest =
  rq_task :: string
  rq_imageBase64 :: string
  rq_minScore :: real
  rq_debugSleepMs :: int
  rq_idempotencyKey :: "string option"

record JobCreateResponse =
  cr_jobId :: string
  cr_status :: JobStatusLiteral
  cr_acceptedAt :: string
  cr_requestId :: string

record JobStatusResponse =
  sr_jobId :: string
  sr_status :: JobStatusLiteral
  sr_task :: string
  sr_createdAt :: string
  sr_startedAt :: "string option"
  sr_finishedAt :: "string option"
  sr_error :: "string option"
  sr_requestId :: string

record JobListItem =
  li_jobId :: string
  li_status :: JobStatusLiteral
  li_task :: string
  li_createdAt :: string
  li_startedAt :: "string option"
  li_finishedAt :: "string option"
  li_error :: "string option"

record JobListResponse =
  items :: "JobListItem list"
  nextCursor :: "string option"
  lr_requestId :: string

record JobResultResponse =
  rr_objects :: "DetectedObject list"
  rr_modelVersion :: string
  rr_latencyMs :: real
  rr_requestId :: string
  rr_jobId :: string

record JobRecord =
  jobId :: string
  status :: JobStatusLiteral
  task :: string
  createdAt :: string
  startedAt :: "string option"
  finishedAt :: "string option"
  error :: "string option"
  result :: "DetectResponse option"
  idempotencyKey :: "string option"

text \<open>Values of the plain dictionaries the handlers build (error details, the health body).\<close>

datatype jvalue = JStr string | JInt int | JNum real

record ApiError =
  code :: string
  message :: string
  requestId :: string
  details :: "(string \<times> jvalue) list option"

datatype HTTPException = HTTPException (status_code: nat) (detail: ApiError)

text \<open>The two dictionaries \<open>_jobs\<close> and \<open>_jobs_by_idempotency\<close>.\<close>

record store =
  jobs :: "(string \<times> JobRecord) list"
  jobs_by_idempotency :: "(string \<times> string) list"

definition JOBS_MAX_ITEMS :: nat where
  "JOBS_MAX_ITEMS = 200"

definition JOBS_TTL_SECONDS :: real where
  "JOBS_TTL_SECONDS = 1800"

definition JOB_RUN_TIMEOUT_SECONDS :: real where
  "JOB_RUN_TIMEOUT_SECONDS = 8"

section \<open>Retention\<close>

text \<open>
  \<open>_job_time_to_epoch\<close>: a missing or empty stamp is 0.0, and so is one the library
  cannot parse. The library call \<open>time.mktime(time.strptime(value, fmt))\<close> is the
  parameter \<open>tm\<close>; \<open>None\<close> is the exception the code catches.
\<close>

definition job_time_to_epoch :: "(string \<Rightarrow> real option) \<Rightarrow> string option \<Rightarrow> real" where
  "job_time_to_epoch tm v =
     (case v of
        None \<Rightarrow> 0
      | Some s \<Rightarrow> if s = [] then 0 else (case tm s of None \<Rightarrow> 0 | Some e \<Rightarrow> e))"

text \<open>The test of the first loop of \<open>_cleanup_jobs\<close> that puts a job id on \<open>removable\<close>.\<close>

definition expired :: "(string \<Rightarrow> real option) \<Rightarrow> real \<Rightarrow> JobRecord \<Rightarrow> bool" where
  "expired tm now record \<longleftrightarrow>
     status record \<in> {Done, Failed, Canceled, Timeout}
     \<and> finishedAt record \<noteq> None \<and> finishedAt record \<noteq> Some []
     \<and> (let finished_epoch = job_time_to_epoch tm (finishedAt record)
        in finished_epoch \<noteq> 0 \<and> now - finished_epoch > JOBS_TTL_SECONDS)"

definition removable :: "(string \<Rightarrow> real option) \<Rightarrow> real \<Rightarrow> (string \<times> JobRecord) list \<Rightarrow> string list" where
  "removable tm now js = map fst (filter (\<lambda>item. expired tm now (snd item)) js)"

definition created_epoch :: "(string \<Rightarrow> real option) \<Rightarrow> JobRecord \<Rightarrow> real" where
  "created_epoch tm record = job_time_to_epoch tm (Some (createdAt record))"

text \<open>The three blocks of \<open>_cleanup_jobs\<close>, in the order of the source.\<close>

definition ttl_evict :: "(string \<Rightarrow> real option) \<Rightarrow> real \<Rightarrow> (string \<times> JobRecord) list \<Rightarrow> (string \<times> JobRecord) list" where
  "ttl_evict tm now js = fold AList.delete (removable tm now js) js"

definition overflow_ids :: "(string \<Rightarrow> real option) \<Rightarrow> (string \<times> JobRecord) list \<Rightarrow> string list" where
  "overflow_ids tm js =
     (let ordered = sort_key (\<lambda>item. created_epoch tm (snd item)) js;
          overflow = length js - JOBS_MAX_ITEMS
      in map fst (take overflow ordered))"

definition capacity_evict :: "(string \<Rightarrow> real option) \<Rightarrow> (string \<times> JobRecord) list \<Rightarrow> (string \<times> JobRecord) list" where
  "capacity_evict tm js =
     (if length js > JOBS_MAX_ITEMS then fold AList.delete (overflow_ids tm js) js else js)"

definition index_step :: "(string \<times> string) list \<Rightarrow> string \<times> JobRecord \<Rightarrow> (string \<times> string) list" where
  "index_step idx item =
     (case idempotencyKey (snd item) of
        None \<Rightarrow> idx
      | Some k \<Rightarrow> if k = [] then idx else AList.update k (fst item) idx)"

definition rebuild_index :: "(string \<times> JobRecord) list \<Rightarrow> (string \<times> string) list" where
  "rebuild_index js = foldl index_step [] js"

definition cleanup_jobs :: "(string \<Rightarrow> real option) \<Rightarrow> real \<Rightarrow> store \<Rightarrow> store" where
  "cleanup_jobs tm now s =
     (let js = capacity_evict tm (ttl_evict tm now (jobs s))
      in \<lparr>jobs = js, jobs_by_idempotency = rebuild_index js\<rparr>)"

section \<open>The health probe\<close>

text \<open>The body is the dictionary literal of \<open>health\<close>, key by key.\<close>

definition health :: "(string \<Rightarrow> real option) \<Rightarrow> real \<Rightarrow> string \<Rightarrow> store \<Rightarrow> (string \<times> jvalue) list \<times> store" where
  "health tm now rid s =
     (let s' = cleanup_jobs tm now s;
          total_jobs = length (jobs s');
          total_keys = length (jobs_by_idempotency s')
      in ([(''status'', JStr ''ok''),
           (''service'', JStr ''backend-ai-mvp''),
           (''version'', JStr ''0.5.0''),
           (''jobsInMemory'', JInt (int total_jobs)),
           (''idempotencyKeysInMemory'', JInt (int total_keys)),
           (''jobRunTimeoutSec'', JNum JOB_RUN_TIMEOUT_SECONDS),
           (''requestId'', JStr rid)], s'))"

section \<open>The background execution path\<close>

definition mark_job_finished :: "JobRecord \<Rightarrow> JobStatusLiteral \<Rightarrow> string option \<Rightarrow> string \<Rightarrow> JobRecord" where
  "mark_job_finished record st err stamp = record\<lparr>status := st, error := err, finishedAt := Some stamp\<rparr>"

text \<open>
  \<open>_process_job\<close> holds the lock twice, with the executor call in between and outside
  the lock, where any other operation may run. Each locked block is one atomic function
  of the store. The first returns whether the executor is to be invoked; \<open>now\<close> is
  \<open>time.time()\<close> and \<open>stamp\<close> the formatted \<open>time.gmtime()\<close>.
\<close>

definition process_job_begin :: "(string \<Rightarrow> real option) \<Rightarrow> real \<Rightarrow> string \<Rightarrow> string \<Rightarrow> store \<Rightarrow> bool \<times> store" where
  "process_job_begin tm now stamp job_id s =
     (let s1 = cleanup_jobs tm now s
      in case map_of (jobs s1) job_id of
           None \<Rightarrow> (False, s1)
         | Some record \<Rightarrow>
             if status record = Canceled then (False, s1)
             else (True, s1\<lparr>jobs := AList.update job_id
                              (record\<lparr>status := Running, startedAt := Some stamp\<rparr>) (jobs s1)\<rparr>))"

text \<open>
  The second block: \<open>outcome\<close> is what \<open>_run_detect\<close> did, \<open>Inr\<close> its result or
  \<open>Inl\<close> the text \<open>str(exc)\<close> of the exception it raised; \<open>elapsed_s\<close> is the time the
  call took. The source reads the elapsed time only on the path where the call returned.
\<close>

definition process_job_end :: "string \<Rightarrow> string + DetectResponse \<Rightarrow> real \<Rightarrow> string \<Rightarrow> store \<Rightarrow> store" where
  "process_job_end job_id outcome elapsed_s stamp s =
     (case outcome of
        Inr res \<Rightarrow>
          (case map_of (jobs s) job_id of
             None \<Rightarrow> s
           | Some record \<Rightarrow>
               if status record = Canceled then s
               else if elapsed_s > JOB_RUN_TIMEOUT_SECONDS then
                 s\<lparr>jobs := AList.update job_id
                     (mark_job_finished record Timeout (Some ''job exceeded processing timeout'') stamp) (jobs s)\<rparr>
               else
                 s\<lparr>jobs := AList.update job_id
                     (record\<lparr>status := Done, finishedAt := Some stamp, result := Some res\<rparr>) (jobs s)\<rparr>)
      | Inl exc \<Rightarrow>
          (case map_of (jobs s) job_id of
             None \<Rightarrow> s
           | Some record \<Rightarrow>
               if status record = Canceled then s
               else s\<lparr>jobs := AList.update job_id
                       (mark_job_finished record Failed (Some exc) stamp) (jobs s)\<rparr>))"

section \<open>Request handlers\<close>

definition to_job_status_response :: "JobRecord \<Rightarrow> string \<Rightarrow> JobStatusResponse" where
  "to_job_status_response record rid =
     \<lparr>sr_jobId = jobId record, sr_status = status record, sr_task = task record,
      sr_createdAt = createdAt record, sr_startedAt = startedAt record,
      sr_finishedAt = finishedAt record, sr_error = error record, sr_requestId = rid\<rparr>"

definition api_error :: "nat \<Rightarrow> string \<Rightarrow> string \<Rightarrow> string \<Rightarrow> (string \<times> jvalue) list \<Rightarrow> HTTPException" where
  "api_error sc c m rid d = HTTPException sc \<lparr>code = c, message = m, requestId = rid, details = Some d\<rparr>"

definition status_name :: "JobStatusLiteral \<Rightarrow> string" where
  "status_name st =
     (case st of Pending \<Rightarrow> ''pending'' | Running \<Rightarrow> ''running'' | Done \<Rightarrow> ''done''
      | Failed \<Rightarrow> ''failed'' | Canceled \<Rightarrow> ''canceled'' | Timeout \<Rightarrow> ''timeout'')"

text \<open>
  The replay lookup of \<open>create_job\<close>: three nested truthiness tests (the key, the indexed
  job id, the record), an empty string being false.
\<close>

definition existing_job :: "JobCreateRequest \<Rightarrow> store \<Rightarrow> JobRecord option" where
  "existing_job payload s =
     (case rq_idempotencyKey payload of
        None \<Rightarrow> None
      | Some k \<Rightarrow>
          if k = [] then None
          else (case map_of (jobs_by_idempotency s) k of
                  None \<Rightarrow> None
                | Some existing_job_id \<Rightarrow>
                    if existing_job_id = [] then None else map_of (jobs s) existing_job_id))"

text \<open>
  \<open>create_job\<close> returns the response, the store and the background task it scheduled, if
  any. \<open>new_id\<close> and \<open>rid\<close> are the two identifiers drawn from \<open>_new_request_id\<close>,
  \<open>now_epoch\<close> is \<open>time.time()\<close> and \<open>now\<close> the formatted \<open>time.gmtime()\<close>.
\<close>

definition create_job ::
  "(string \<Rightarrow> real option) \<Rightarrow> real \<Rightarrow> string \<Rightarrow> string \<Rightarrow> string \<Rightarrow> JobCreateRequest \<Rightarrow> store
   \<Rightarrow> (HTTPException + JobCreateResponse) \<times> store \<times> (string \<times> DetectRequest) option" where
  "create_job tm now_epoch now new_id rid payload s =
     (if rq_task payload \<noteq> ''detect-objects'' then
        (Inl (api_error 400 ''unsupported_task'' ''unsupported task'' rid
               [(''task'', JStr (rq_task payload))]), s, None)
      else
        let s1 = cleanup_jobs tm now_epoch s
        in case existing_job payload s1 of
             Some existing \<Rightarrow>
               (Inr \<lparr>cr_jobId = jobId existing, cr_status = status existing,
                     cr_acceptedAt = createdAt existing, cr_requestId = rid\<rparr>, s1, None)
           | None \<Rightarrow>
               let record = \<lparr>jobId = new_id, status = Pending, task = rq_task payload,
                             createdAt = now, startedAt = None, finishedAt = None,
                             error = None, result = None,
                             idempotencyKey = rq_idempotencyKey payload\<rparr>;
                   js = AList.update new_id record (jobs s1);
                   idx = (case rq_idempotencyKey payload of
                            None \<Rightarrow> jobs_by_idempotency s1
                          | Some k \<Rightarrow> if k = [] then jobs_by_idempotency s1
                                      else AList.update k new_id (jobs_by_idempotency s1))
               in (Inr \<lparr>cr_jobId = new_id, cr_status = Pending, cr_acceptedAt = now,
                        cr_requestId = rid\<rparr>,
                   \<lparr>jobs = js, jobs_by_idempotency = idx\<rparr>,
                   Some (new_id, \<lparr>imageBase64 = rq_imageBase64 payload,
                                   minScore = rq_minScore payload,
                                   debugSleepMs = rq_debugSleepMs payload\<rparr>)))"

text \<open>
  The framework checks the body against \<open>JobCreateRequest\<close> before it calls the handler,
  and answers a failed check through \<open>validation_exception_handler\<close>. Of that check the
  model keeps the constraint the declaration \<open>task: Literal["detect-objects"]\<close> puts on
  the field; the other fields are taken at their declared types, and the handler's
  \<open>errors\<close> entry (the validator's own report) is left out of the details.
\<close>

definition post_jobs ::
  "(string \<Rightarrow> real option) \<Rightarrow> real \<Rightarrow> string \<Rightarrow> string \<Rightarrow> string \<Rightarrow> JobCreateRequest \<Rightarrow> store
   \<Rightarrow> (HTTPException + JobCreateResponse) \<times> store \<times> (string \<times> DetectRequest) option" where
  "post_jobs tm now_epoch now new_id rid body s =
     (if rq_task body = ''detect-objects'' then create_job tm now_epoch now new_id rid body s
      else (Inl (api_error 422 ''validation_error'' ''Request validation failed'' rid
                  [(''path'', JStr ''/jobs'')]), s, None))"

subsection \<open>Cursors: \<open>int(cursor)\<close> and \<open>str(offset + limit)\<close>\<close>

text \<open>
  Python's \<open>int\<close> on a string, for ASCII input: leading and trailing whitespace (space,
  tab, line feed, vertical tab, form feed, carriage return) is skipped, one sign may lead,
  and the digits may be grouped by single underscores. A string of more than 4300 digits
  is refused (the interpreter's default limit; leading zeros count, underscores do not).
  \<open>None\<close> is the \<open>ValueError\<close>. The strings of the model are ASCII: for a string with a
  character outside ASCII Python first rewrites Unicode spaces to a blank and Unicode
  decimal digits to ASCII digits, and that step is not modelled.
\<close>

definition is_space :: "char \<Rightarrow> bool" where
  "is_space c \<longleftrightarrow> c \<in> set [CHR 0x20, CHR 0x09, CHR 0x0A, CHR 0x0B, CHR 0x0C, CHR 0x0D]"

definition strip :: "string \<Rightarrow> string" where
  "strip s = rev (dropWhile is_space (rev (dropWhile is_space s)))"

definition is_digit :: "char \<Rightarrow> bool" where
  "is_digit c \<longleftrightarrow> c \<in> set ''0123456789''"

definition digit_val :: "char \<Rightarrow> int" where
  "digit_val c = int (of_char c) - 48"

fun grouped :: "string \<Rightarrow> bool" where
  "grouped [] = False"
| "grouped [c] = is_digit c"
| "grouped (c # d # cs) = (is_digit c \<and> (if d = CHR ''_'' then grouped cs else grouped (d # cs)))"

definition digits_value :: "string \<Rightarrow> int" where
  "digits_value body = foldl (\<lambda>a c. 10 * a + digit_val c) 0 (filter is_digit body)"

definition MAX_STR_DIGITS :: nat where
  "MAX_STR_DIGITS = 4300"

definition py_int :: "string \<Rightarrow> int option" where
  "py_int s =
     (let t = strip s;
          sg = (case t of [] \<Rightarrow> 1 | c # r \<Rightarrow> if c = CHR ''-'' then - 1 else (1::int));
          body = (case t of [] \<Rightarrow> [] | c # r \<Rightarrow> if c = CHR ''-'' \<or> c = CHR ''+'' then r else t)
      in if grouped body \<and> length (filter is_digit body) \<le> MAX_STR_DIGITS
         then Some (sg * digits_value body) else None)"

definition digit_char :: "nat \<Rightarrow> char" where
  "digit_char n = ''0123456789'' ! n"

function str_nat :: "nat \<Rightarrow> string" where
  "str_nat n = (if n < 10 then [digit_char n] else str_nat (n div 10) @ [digit_char (n mod 10)])"
  by pat_completeness auto
termination
  by (relation "measure (\<lambda>n. n)") auto

declare str_nat.simps [simp del]

text \<open>
  \<open>str\<close> of an integer. \<open>list_jobs\<close> calls it on \<open>offset + limit\<close> only when that is
  below the number of records listed, far from the digit limit of the conversion.
\<close>

definition py_str :: "int \<Rightarrow> string" where
  "py_str i = (if i < 0 then CHR ''-'' # str_nat (nat (- i)) else str_nat (nat i))"

text \<open>The cursor block of \<open>list_jobs\<close>; \<open>None\<close> is the \<open>invalid_cursor\<close> answer.\<close>

definition parse_cursor :: "string option \<Rightarrow> int option" where
  "parse_cursor cursor =
     (case cursor of
        None \<Rightarrow> Some 0
      | Some c \<Rightarrow>
          if c = [] then Some 0
          else (case py_int c of
                  None \<Rightarrow> None
                | Some offset \<Rightarrow> if offset < 0 then None else Some offset))"

subsection \<open>Listing, status, cancel, result\<close>

definition to_list_item :: "JobRecord \<Rightarrow> JobListItem" where
  "to_list_item record =
     \<lparr>li_jobId = jobId record, li_status = status record, li_task = task record,
      li_createdAt = createdAt record, li_startedAt = startedAt record,
      li_finishedAt = finishedAt record, li_error = error record\<rparr>"

text \<open>
  \<open>records.sort(key=..., reverse=True)\<close> is stable: records of equal key keep their
  order, the others descend. That is the stable ascending sort on the negated key.
\<close>

definition sorted_records :: "(string \<Rightarrow> real option) \<Rightarrow> store \<Rightarrow> JobRecord list" where
  "sorted_records tm s = sort_key (\<lambda>item. - created_epoch tm item) (map snd (jobs s))"

definition filtered_records :: "(string \<Rightarrow> real option) \<Rightarrow> JobStatusLiteral option \<Rightarrow> store \<Rightarrow> JobRecord list" where
  "filtered_records tm status_filter s =
     (case status_filter of
        None \<Rightarrow> sorted_records tm s
      | Some st \<Rightarrow> filter (\<lambda>item. status item = st) (sorted_records tm s))"

definition list_jobs ::
  "(string \<Rightarrow> real option) \<Rightarrow> real \<Rightarrow> string \<Rightarrow> JobStatusLiteral option \<Rightarrow> int \<Rightarrow> string option \<Rightarrow> store
   \<Rightarrow> (HTTPException + JobListResponse) \<times> store" where
  "list_jobs tm now rid status_filter limit cursor s =
     (if limit < 1 \<or> limit > 100 then
        (Inl (api_error 400 ''invalid_pagination'' ''limit must be between 1 and 100'' rid
               [(''limit'', JInt limit)]), s)
      else case parse_cursor cursor of
        None \<Rightarrow>
          (Inl (api_error 400 ''invalid_cursor'' ''cursor must be a non-negative integer'' rid
                 [(''cursor'', JStr (case cursor of None \<Rightarrow> [] | Some c \<Rightarrow> c))]), s)
      | Some offset \<Rightarrow>
          let s1 = cleanup_jobs tm now s;
              records = filtered_records tm status_filter s1;
              page = take (nat limit) (drop (nat offset) records);
              next_cursor = (if offset + limit < int (length records)
                             then Some (py_str (offset + limit)) else None)
          in (Inr \<lparr>items = map to_list_item page, nextCursor = next_cursor, lr_requestId = rid\<rparr>, s1))"

definition job_not_found :: "string \<Rightarrow> string \<Rightarrow> HTTPException" where
  "job_not_found job_id rid = api_error 404 ''job_not_found'' ''job not found'' rid [(''jobId'', JStr job_id)]"

definition get_job_status ::
  "(string \<Rightarrow> real option) \<Rightarrow> real \<Rightarrow> string \<Rightarrow> string \<Rightarrow> store \<Rightarrow> (HTTPException + JobStatusResponse) \<times> store" where
  "get_job_status tm now rid job_id s =
     (let s1 = cleanup_jobs tm now s
      in case map_of (jobs s1) job_id of
           None \<Rightarrow> (Inl (job_not_found job_id rid), s1)
         | Some record \<Rightarrow> (Inr (to_job_status_response record rid), s1))"

definition cancel_job ::
  "(string \<Rightarrow> real option) \<Rightarrow> real \<Rightarrow> string \<Rightarrow> string \<Rightarrow> string \<Rightarrow> store \<Rightarrow> (HTTPException + JobStatusResponse) \<times> store" where
  "cancel_job tm now stamp rid job_id s =
     (let s1 = cleanup_jobs tm now s
      in case map_of (jobs s1) job_id of
           None \<Rightarrow> (Inl (job_not_found job_id rid), s1)
         | Some record \<Rightarrow>
             if status record \<in> {Done, Failed, Timeout} then
               (Inl (api_error 409 ''job_not_cancelable'' ''job already completed'' rid
                      [(''jobId'', JStr job_id), (''status'', JStr (status_name (status record)))]), s1)
             else if status record \<noteq> Canceled then
               (let record' = mark_job_finished record Canceled (Some ''job canceled by user'') stamp
                in (Inr (to_job_status_response record' rid),
                    s1\<lparr>jobs := AList.update job_id record' (jobs s1)\<rparr>))
             else (Inr (to_job_status_response record rid), s1))"

text \<open>\<open>record.error or default\<close>: a missing or empty stored error gives the default.\<close>

definition error_or :: "string option \<Rightarrow> string \<Rightarrow> string" where
  "error_or e dflt = (case e of None \<Rightarrow> dflt | Some m \<Rightarrow> if m = [] then dflt else m)"

definition get_job_result ::
  "(string \<Rightarrow> real option) \<Rightarrow> real \<Rightarrow> string \<Rightarrow> string \<Rightarrow> store \<Rightarrow> (HTTPException + JobResultResponse) \<times> store" where
  "get_job_result tm now rid job_id s =
     (let s1 = cleanup_jobs tm now s
      in case map_of (jobs s1) job_id of
           None \<Rightarrow> (Inl (job_not_found job_id rid), s1)
         | Some record \<Rightarrow>
             if status record = Failed then
               (Inl (api_error 409 ''job_failed'' (error_or (error record) ''job failed'') rid
                      [(''jobId'', JStr job_id)]), s1)
             else if status record = Timeout then
               (Inl (api_error 409 ''job_timeout'' (error_or (error record) ''job timeout'') rid
                      [(''jobId'', JStr job_id)]), s1)
             else if status record = Canceled then
               (Inl (api_error 409 ''job_canceled'' (error_or (error record) ''job canceled'') rid
                      [(''jobId'', JStr job_id)]), s1)
             else (case (if status record \<noteq> Done then None else result record) of
                     None \<Rightarrow>
                       (Inl (api_error 409 ''job_not_completed'' ''job not completed'' rid
                              [(''jobId'', JStr job_id), (''status'', JStr (status_name (status record)))]), s1)
                   | Some res \<Rightarrow>
                       (Inr \<lparr>rr_objects = objects res, rr_modelVersion = modelVersion res,
                             rr_latencyMs = latencyMs res, rr_requestId = dr_requestId res,
                             rr_jobId = jobId record\<rparr>, s1)))"

section \<open>The service as a transition system\<close>

text \<open>
  Every access to the store happens under \<open>_jobs_lock\<close>, so a run of the service is a
  sequence of atomic events: the handlers, and for each background task its two locked
  blocks. The system state adds to the store what the framework and the interpreter hold:
  the tasks handed to \<open>background_tasks.add_task\<close> and not yet begun, the tasks whose
  executor call is in progress, and the job ids drawn so far. An event that cannot happen
  (a block of a task that is not in that phase, a job id that \<open>uuid4\<close> already gave, or an
  empty one) yields \<open>None\<close>.
\<close>

record system =
  jobstore :: store
  scheduled :: "string set"
  executing :: "string set"
  issued :: "string set"

datatype event =
  Submit real string string string JobCreateRequest
| Begin string real string
| End string "string + DetectResponse" real string
| Cancel real string string string
| GetStatus real string string
| GetResult real string string
| ListJobs real string "JobStatusLiteral option" int "string option"
| Health real string

definition initial :: system where
  "initial = \<lparr>jobstore = \<lparr>jobs = [], jobs_by_idempotency = []\<rparr>,
              scheduled = {}, executing = {}, issued = {}\<rparr>"

fun fire :: "(string \<Rightarrow> real option) \<Rightarrow> event \<Rightarrow> system \<Rightarrow> system option" where
  "fire tm (Submit now_epoch now new_id rid payload) sys =
     (if new_id \<in> issued sys \<or> new_id = [] then None
      else case create_job tm now_epoch now new_id rid payload (jobstore sys) of
        (_, s', None) \<Rightarrow> Some (sys\<lparr>jobstore := s'\<rparr>)
      | (_, s', Some (job_id, _)) \<Rightarrow>
          Some (sys\<lparr>jobstore := s', scheduled := insert job_id (scheduled sys),
                    issued := insert job_id (issued sys)\<rparr>))"
| "fire tm (Begin job_id now stamp) sys =
     (if job_id \<notin> scheduled sys then None
      else case process_job_begin tm now stamp job_id (jobstore sys) of
        (go, s') \<Rightarrow>
          Some (sys\<lparr>jobstore := s', scheduled := scheduled sys - {job_id},
                    executing := (if go then insert job_id (executing sys) else executing sys)\<rparr>))"
| "fire tm (End job_id outcome elapsed_s stamp) sys =
     (if job_id \<notin> executing sys then None
      else Some (sys\<lparr>jobstore := process_job_end job_id outcome elapsed_s stamp (jobstore sys),
                     executing := executing sys - {job_id}\<rparr>))"
| "fire tm (Cancel now stamp rid job_id) sys =
     Some (sys\<lparr>jobstore := snd (cancel_job tm now stamp rid job_id (jobstore sys))\<rparr>)"
| "fire tm (GetStatus now rid job_id) sys =
     Some (sys\<lparr>jobstore := snd (get_job_status tm now rid job_id (jobstore sys))\<rparr>)"
| "fire tm (GetResult now rid job_id) sys =
     Some (sys\<lparr>jobstore := snd (get_job_result tm now rid job_id (jobstore sys))\<rparr>)"
| "fire tm (ListJobs now rid status_filter limit cursor) sys =
     Some (sys\<lparr>jobstore := snd (list_jobs tm now rid status_filter limit cursor (jobstore sys))\<rparr>)"
| "fire tm (Health now rid) sys =
     Some (sys\<lparr>jobstore := snd (health tm now rid (jobstore sys))\<rparr>)"

fun run :: "(string \<Rightarrow> real option) \<Rightarrow> event list \<Rightarrow> system \<Rightarrow> system option" where
  "run tm [] sys = Some sys"
| "run tm (ev # evs) sys = (case fire tm ev sys of None \<Rightarrow> None | Some sys' \<Rightarrow> run tm evs sys')"

definition job_of :: "system \<Rightarrow> string \<Rightarrow> JobRecord option" where
  "job_of sys job_id = map_of (jobs (jobstore sys)) job_id"

section \<open>Properties of records, stores and runs\<close>

definition terminal :: "JobStatusLiteral \<Rightarrow> bool" where
  "terminal st \<longleftrightarrow> st \<in> {Done, Failed, Canceled, Timeout}"

text \<open>The edges of the state machine.\<close>

definition edge :: "JobStatusLiteral \<Rightarrow> JobStatusLiteral \<Rightarrow> bool" where
  "edge a b \<longleftrightarrow> (a = Pending \<and> b = Running)
              \<or> (a = Running \<and> b \<in> {Done, Failed, Timeout})
              \<or> (a \<in> {Pending, Running} \<and> b = Canceled)"

text \<open>What each status says about the optional fields of a record.\<close>

definition record_ok :: "JobRecord \<Rightarrow> bool" where
  "record_ok r \<longleftrightarrow>
     (case status r of
        Pending \<Rightarrow> startedAt r = None \<and> finishedAt r = None \<and> error r = None \<and> result r = None
      | Running \<Rightarrow> finishedAt r = None \<and> error r = None \<and> result r = None
      | Done \<Rightarrow> finishedAt r \<noteq> None \<and> error r = None \<and> result r \<noteq> None
      | Failed \<Rightarrow> finishedAt r \<noteq> None \<and> error r \<noteq> None \<and> result r = None
      | Canceled \<Rightarrow> finishedAt r \<noteq> None \<and> error r = Some ''job canceled by user'' \<and> result r = None
      | Timeout \<Rightarrow> finishedAt r \<noteq> None \<and> error r = Some ''job exceeded processing timeout''
                   \<and> result r = None)"

text \<open>A dictionary of records as the code builds it: each key once, each record under its own, non-empty id.\<close>

definition store_wf :: "store \<Rightarrow> bool" where
  "store_wf s \<longleftrightarrow> distinct (map fst (jobs s))
                 \<and> (\<forall>item \<in> set (jobs s). jobId (snd item) = fst item \<and> fst item \<noteq> [])"

text \<open>No two live records carry the same non-empty idempotency key.\<close>

definition idem_unique :: "(string \<times> JobRecord) list \<Rightarrow> bool" where
  "idem_unique js \<longleftrightarrow>
     (\<forall>a \<in> set js. \<forall>b \<in> set js.
        idempotencyKey (snd a) = idempotencyKey (snd b) \<and> idempotencyKey (snd a) \<noteq> None
        \<and> idempotencyKey (snd a) \<noteq> Some [] \<longrightarrow> fst a = fst b)"

text \<open>
  What the system state says about the job under id \<open>j\<close>: the record is filed under its
  own id, one \<open>uuid4\<close> gave, its fields fit its status, and the background task of the job
  is in the phase the status tells: not begun while \<open>Pending\<close>, in its executor call while
  \<open>Running\<close>, over once the job is \<open>Done\<close>, \<open>Failed\<close> or \<open>Timeout\<close>.
\<close>

definition job_ok :: "system \<Rightarrow> string \<Rightarrow> JobRecord \<Rightarrow> bool" where
  "job_ok sys j r \<longleftrightarrow>
     jobId r = j \<and> j \<noteq> [] \<and> record_ok r \<and> j \<in> issued sys
     \<and> (status r = Pending \<longrightarrow> j \<in> scheduled sys)
     \<and> (status r = Running \<longrightarrow> j \<in> executing sys)
     \<and> (status r \<in> {Done, Failed, Timeout} \<longrightarrow> j \<notin> scheduled sys \<and> j \<notin> executing sys)"

definition system_inv :: "system \<Rightarrow> bool" where
  "system_inv sys \<longleftrightarrow>
     distinct (map fst (jobs (jobstore sys)))
     \<and> (\<forall>item \<in> set (jobs (jobstore sys)). job_ok sys (fst item) (snd item))
     \<and> scheduled sys \<inter> executing sys = {}
     \<and> scheduled sys \<subseteq> issued sys \<and> executing sys \<subseteq> issued sys"

text \<open>The fields of a record that no operation writes after its creation.\<close>

definition same_job :: "JobRecord \<Rightarrow> JobRecord \<Rightarrow> bool" where
  "same_job r r' \<longleftrightarrow> jobId r' = jobId r \<and> task r' = task r \<and> createdAt r' = createdAt r
                    \<and> idempotencyKey r' = idempotencyKey r"




fun event_stamp :: "event \<Rightarrow> string option" where
  "event_stamp (Submit now_epoch now new_id rid payload) = Some now"
| "event_stamp (Begin job_id now stamp) = Some stamp"
| "event_stamp (End job_id outcome elapsed_s stamp) = Some stamp"
| "event_stamp (Cancel now stamp rid job_id) = Some stamp"
| "event_stamp (GetStatus now rid job_id) = None"
| "event_stamp (GetResult now rid job_id) = None"
| "event_stamp (ListJobs now rid status_filter limit cursor) = None"
| "event_stamp (Health now rid) = None"



text \<open>
  A client that lists with one fixed filter and limit, starting at \<open>cursor\<close> and following
  \<open>nextCursor\<close> until a page has none. \<open>clock\<close> holds the time of each call; when the
  calls run out before the last page, or a call fails, the answer is \<open>None\<close>.
\<close>

fun follow_pages ::
  "(string \<Rightarrow> real option) \<Rightarrow> string \<Rightarrow> JobStatusLiteral option \<Rightarrow> int \<Rightarrow> real list \<Rightarrow> string option \<Rightarrow> store
   \<Rightarrow> JobListItem list list option" where
  "follow_pages tm rid status_filter limit [] cursor s = None"
| "follow_pages tm rid status_filter limit (now # later) cursor s =
     (case list_jobs tm now rid status_filter limit cursor s of
        (Inl e, s') \<Rightarrow> None
      | (Inr page, s') \<Rightarrow>
          (case nextCursor page of
             None \<Rightarrow> Some [items page]
           | Some c \<Rightarrow> map_option ((#) (items page))
                        (follow_pages tm rid status_filter limit later (Some c) s')))"

text \<open>The characters \<open>str\<close> writes for a natural number: digits, none of them a sign, a space or an underscore.\<close>

definition plain_digit :: "char \<Rightarrow> bool" where
  "plain_digit c \<longleftrightarrow> is_digit c \<and> \<not> is_space c \<and> c \<noteq> CHR ''-'' \<and> c \<noteq> CHR ''+'' \<and> c \<noteq> CHR ''_''"

text \<open>A response dictionary reports a number when one of its values is that number.\<close>

definition num_of :: "jvalue \<Rightarrow> real option" where
  "num_of v = (case v of JStr _ \<Rightarrow> None | JInt i \<Rightarrow> Some (real_of_int i) | JNum r \<Rightarrow> Some r)"

definition reports :: "(string \<times> jvalue) list \<Rightarrow> real \<Rightarrow> bool" where
  "reports body c \<longleftrightarrow> Some c \<in> set (map (\<lambda>item. num_of (snd item)) body)"

section \<open>Example values\<close>

text \<open>
  Concrete stores, requests and a small table standing for the library's stamp parser,
  used where a statement is evaluated at an input.
\<close>

definition empty_store :: store where
  "empty_store = \<lparr>jobs = [], jobs_by_idempotency = []\<rparr>"

definition stamp_table :: "string \<Rightarrow> real option" where
  "stamp_table = map_of [(''t1000'', 1000), (''t2000'', 2000), (''t3000'', 3000), (''t9000'', 9000)]"

definition demo_request :: "string option \<Rightarrow> JobCreateRequest" where
  "demo_request key = \<lparr>rq_task = ''detect-objects'', rq_imageBase64 = ''data:,'', rq_minScore = 0.35,
                        rq_debugSleepMs = 0, rq_idempotencyKey = key\<rparr>"

definition empty_key_store :: store where
  "empty_key_store = fst (snd (create_job stamp_table 1000 ''t1000'' ''a'' ''r1'' (demo_request (Some [])) empty_store))"

definition demo_result :: DetectResponse where
  "demo_result = \<lparr>objects = [], modelVersion = ''backend-mvp-edge-heuristic-0.5.0'', latencyMs = 1,
                   dr_requestId = ''r0''\<rparr>"

definition demo_record :: "string \<Rightarrow> JobStatusLiteral \<Rightarrow> string \<Rightarrow> string option \<Rightarrow> JobRecord" where
  "demo_record job_id st created key =
     \<lparr>jobId = job_id, status = st, task = ''detect-objects'', createdAt = created,
      startedAt = None, finishedAt = None, error = None, result = None, idempotencyKey = key\<rparr>"

definition demo_store :: store where
  "demo_store =
     \<lparr>jobs = [(''a'', (demo_record ''a'' Done ''t1000'' (Some ''k1''))
                      \<lparr>startedAt := Some ''t1000'', finishedAt := Some ''t1000'', result := Some demo_result\<rparr>),
              (''b'', demo_record ''b'' Pending ''t3000'' (Some ''k2'')),
              (''c'', (demo_record ''c'' Running ''t2000'' None)\<lparr>startedAt := Some ''t2000''\<rparr>)],
      jobs_by_idempotency = [(''k1'', ''a''), (''k2'', ''b'')]\<rparr>"

text \<open>
  The store after one job was submitted, begun, and failed by an executor whose exception
  has the empty text (\<open>str(MemoryError())\<close>, for one).
\<close>

definition failed_empty_store :: store where
  "failed_empty_store =
     process_job_end ''a'' (Inl []) 1 ''t2000''
       (snd (process_job_begin stamp_table 1500 ''t1000'' ''a''
          (fst (snd (create_job stamp_table 1000 ''t1000'' ''a'' ''r1'' (demo_request None) empty_store)))))"

text \<open>
  Two runs of one job: submitted, begun and finished within the budget; and submitted,
  begun and canceled while its executor call is in progress. Each with the system state
  it ends in.
\<close>

definition done_events :: "event list" where
  "done_events = [Submit 1000 ''t1000'' ''a'' ''r1'' (demo_request None),
                  Begin ''a'' 1001 ''t1000'',
                  End ''a'' (Inr demo_result) 1 ''t2000'']"

definition done_record :: JobRecord where
  "done_record = (demo_record ''a'' Done ''t1000'' None)
                   \<lparr>startedAt := Some ''t1000'', finishedAt := Some ''t2000'', result := Some demo_result\<rparr>"

definition done_system :: system where
  "done_system = \<lparr>jobstore = \<lparr>jobs = [(''a'', done_record)], jobs_by_idempotency = []\<rparr>,
                  scheduled = {}, executing = {}, issued = {''a''}\<rparr>"

definition cancel_events :: "event list" where
  "cancel_events = [Submit 1000 ''t1000'' ''a'' ''r1'' (demo_request None),
                    Begin ''a'' 1001 ''t1000'',
                    Cancel 1002 ''t2000'' ''r2'' ''a'']"

definition canceled_record :: JobRecord where
  "canceled_record = (demo_record ''a'' Canceled ''t1000'' None)
                   \<lparr>startedAt := Some ''t1000'', finishedAt := Some ''t2000'',
                    error := Some ''job canceled by user''\<rparr>"

definition canceled_system :: system where
  "canceled_system = \<lparr>jobstore = \<lparr>jobs = [(''a'', canceled_record)], jobs_by_idempotency = []\<rparr>,
                      scheduled = {}, executing = {''a''}, issued = {''a''}\<rparr>"






text \<open>
  The system after one submission under the key \<open>k1\<close>, and after that job's task began.
\<close>

definition keyed_system :: system where
  "keyed_system = \<lparr>jobstore = \<lparr>jobs = [(''a'', demo_record ''a'' Pending ''t1000'' (Some ''k1''))],
                                jobs_by_idempotency = [(''k1'', ''a'')]\<rparr>,
                   scheduled = {''a''}, executing = {}, issued = {''a''}\<rparr>"

definition keyed_running_system :: system where
  "keyed_running_system =
     \<lparr>jobstore = \<lparr>jobs = [(''a'', (demo_record ''a'' Running ''t1000'' (Some ''k1''))
                                     \<lparr>startedAt := Some ''t2000''\<rparr>)],
                  jobs_by_idempotency = [(''k1'', ''a'')]\<rparr>,
      scheduled = {}, executing = {''a''}, issued = {''a''}\<rparr>"




section \<open>Retention: proofs\<close>

lemma fold_delete_filter: "fold AList.delete ks al = filter (\<lambda>p. fst p \<notin> set ks) al"
proof (induction ks arbitrary: al)
  case Nil
  then show ?case by simp
next
  case (Cons k ks)
  have "AList.delete k al = filter (\<lambda>p. fst p \<noteq> k) al"
    by (simp add: AList.delete_eq case_prod_unfold) (metis)
  then show ?case using Cons by (simp add: conj_commute)
qed

lemma ttl_evict_filter:
  assumes "distinct (map fst js)"
  shows "ttl_evict tm now js = filter (\<lambda>item. \<not> expired tm now (snd item)) js"
proof -
  have "\<And>p. p \<in> set js \<Longrightarrow> (fst p \<notin> set (removable tm now js)) = (\<not> expired tm now (snd p))"
  proof -
    fix p assume p: "p \<in> set js"
    show "(fst p \<notin> set (removable tm now js)) = (\<not> expired tm now (snd p))"
    proof
      assume "fst p \<notin> set (removable tm now js)"
      then show "\<not> expired tm now (snd p)" using p by (force simp: removable_def)
    next
      assume ne: "\<not> expired tm now (snd p)"
      show "fst p \<notin> set (removable tm now js)"
      proof
        assume "fst p \<in> set (removable tm now js)"
        then obtain q where q: "q \<in> set js" "expired tm now (snd q)" "fst q = fst p"
          by (auto simp: removable_def)
        from assms p q(1,3) have "q = p" by (metis eq_key_imp_eq_value prod.collapse)
        with q(2) ne show False by simp
      qed
    qed
  qed
  then show ?thesis
    unfolding ttl_evict_def fold_delete_filter by (intro filter_cong) auto
qed

lemma expired_iff:
  "expired tm now r \<longleftrightarrow>
     terminal (status r)
     \<and> (\<exists>f e. finishedAt r = Some f \<and> f \<noteq> [] \<and> tm f = Some e \<and> e \<noteq> 0 \<and> now - e > 1800)"
  by (auto simp: expired_def terminal_def job_time_to_epoch_def JOBS_TTL_SECONDS_def Let_def split: option.splits)

lemma keep_after_take:
  fixes f :: "'k \<times> 'v \<Rightarrow> real"
  assumes d: "distinct (map fst js)"
  defines "ord \<equiv> sort_key f js"
  shows "set (filter (\<lambda>p. fst p \<notin> set (map fst (take n ord))) js) = set (drop n ord)"
proof -
  have sets: "set ord = set js" by (simp add: ord_def)
  have dord: "distinct (map fst ord)" using d by (simp add: ord_def distinct_map)
  have split: "map fst (take n ord) @ map fst (drop n ord) = map fst ord"
    by (metis append_take_drop_id map_append)
  with dord have disj: "set (map fst (take n ord)) \<inter> set (map fst (drop n ord)) = {}"
    by (metis distinct_append)
  have un: "set ord = set (take n ord) \<union> set (drop n ord)"
    by (metis append_take_drop_id set_append)
  show ?thesis
  proof (rule set_eqI)
    fix p
    show "p \<in> set (filter (\<lambda>p. fst p \<notin> set (map fst (take n ord))) js) \<longleftrightarrow> p \<in> set (drop n ord)"
      using disj un sets by (auto simp: rev_image_eqI)
  qed
qed

lemma length_keep_after_take:
  fixes f :: "'k \<times> 'v \<Rightarrow> real"
  assumes d: "distinct (map fst js)"
  shows "length (filter (\<lambda>p. fst p \<notin> set (map fst (take n (sort_key f js)))) js) = length js - n"
proof -
  let ?ord = "sort_key f js"
  let ?kept = "filter (\<lambda>p. fst p \<notin> set (map fst (take n ?ord))) js"
  have djs: "distinct js" using d by (simp add: distinct_map)
  have dord: "distinct ?ord" using djs by simp
  have "distinct ?kept" using djs by (rule distinct_filter)
  then have "length ?kept = card (set ?kept)"
    by (rule distinct_card [symmetric])
  also have "\<dots> = card (set (drop n ?ord))"
    using keep_after_take [OF d, where f = f and n = n] by simp
  also have "\<dots> = length (drop n ?ord)"
    using dord by (simp add: distinct_card)
  finally show ?thesis by simp
qed



lemma capacity_evict_filter:
  "capacity_evict tm js = filter (\<lambda>p. fst p \<notin> set (overflow_ids tm js)) js"
  by (simp add: capacity_evict_def fold_delete_filter overflow_ids_def)

lemma length_capacity_evict:
  assumes "distinct (map fst js)"
  shows "length (capacity_evict tm js) = min (length js) JOBS_MAX_ITEMS"
  using length_keep_after_take [OF assms, where f = "\<lambda>item. created_epoch tm (snd item)" and n = "length js - JOBS_MAX_ITEMS"]
  by (simp add: capacity_evict_filter overflow_ids_def Let_def)


lemma map_of_rebuild_index_aux:
  "map_of (foldl index_step idx js) k =
     (let ms = filter (\<lambda>item. idempotencyKey (snd item) = Some k) js
      in if k = [] \<or> ms = [] then map_of idx k else Some (fst (last ms)))"
proof (induction js arbitrary: idx)
  case Nil
  then show ?case by simp
next
  case (Cons a js)
  have step: "map_of (index_step idx a) k =
                (if k \<noteq> [] \<and> idempotencyKey (snd a) = Some k then Some (fst a) else map_of idx k)"
    by (auto simp: index_step_def update_conv' split: option.splits)
  show ?case
    unfolding foldl_Cons Cons.IH step by (auto simp: Let_def)
qed

lemma map_of_rebuild_index:
  "map_of (rebuild_index js) k =
     (let ms = filter (\<lambda>item. idempotencyKey (snd item) = Some k) js
      in if k = [] \<or> ms = [] then None else Some (fst (last ms)))"
  by (simp add: rebuild_index_def map_of_rebuild_index_aux Let_def)

lemma map_of_rebuild_index_unique:
  assumes u: "idem_unique js"
  shows "map_of (rebuild_index js) k = Some j \<longleftrightarrow>
           k \<noteq> [] \<and> (\<exists>r. (j, r) \<in> set js \<and> idempotencyKey r = Some k)"
proof -
  let ?ms = "filter (\<lambda>item. idempotencyKey (snd item) = Some k) js"
  show ?thesis
  proof (cases "k = [] \<or> ?ms = []")
    case True
    then show ?thesis
      by (auto simp: map_of_rebuild_index Let_def filter_empty_conv)
  next
    case False
    then have k: "k \<noteq> []" and ne: "?ms \<noteq> []" by auto
    have l: "last ?ms \<in> set ?ms" using ne by (rule last_in_set)
    have val: "map_of (rebuild_index js) k = Some (fst (last ?ms))"
      using False by (simp add: map_of_rebuild_index Let_def)
    show ?thesis
    proof
      assume "map_of (rebuild_index js) k = Some j"
      with val have "j = fst (last ?ms)" by simp
      with l k show "k \<noteq> [] \<and> (\<exists>r. (j, r) \<in> set js \<and> idempotencyKey r = Some k)"
        by (auto intro!: exI [of _ "snd (last ?ms)"])
    next
      assume "k \<noteq> [] \<and> (\<exists>r. (j, r) \<in> set js \<and> idempotencyKey r = Some k)"
      then obtain r where r: "(j, r) \<in> set js" "idempotencyKey r = Some k" by auto
      from l have l': "last ?ms \<in> set js" "idempotencyKey (snd (last ?ms)) = Some k" by auto
      from u r l' k have "fst (j, r) = fst (last ?ms)"
        unfolding idem_unique_def by (metis option.distinct(1) option.inject snd_conv)
      with val show "map_of (rebuild_index js) k = Some j" by simp
    qed
  qed
qed

lemma idem_unique_subset: "idem_unique js \<Longrightarrow> set js' \<subseteq> set js \<Longrightarrow> idem_unique js'"
  unfolding idem_unique_def by blast

lemma set_cleanup_subset: "set (jobs (cleanup_jobs tm now s)) \<subseteq> set (jobs s)"
  by (auto simp: cleanup_jobs_def Let_def capacity_evict_filter ttl_evict_def fold_delete_filter)

lemma jobs_cleanup: "jobs (cleanup_jobs tm now s) = capacity_evict tm (ttl_evict tm now (jobs s))"
  by (simp add: cleanup_jobs_def Let_def)

lemma index_cleanup: "jobs_by_idempotency (cleanup_jobs tm now s) = rebuild_index (jobs (cleanup_jobs tm now s))"
  by (simp add: cleanup_jobs_def Let_def)

lemma empty_key_store_eq:
  "empty_key_store = \<lparr>jobs = [(''a'', \<lparr>jobId = ''a'', status = Pending, task = ''detect-objects'',
        createdAt = ''t1000'', startedAt = None, finishedAt = None, error = None, result = None,
        idempotencyKey = Some []\<rparr>)], jobs_by_idempotency = []\<rparr>"
  by (simp add: empty_key_store_def create_job_def demo_request_def empty_store_def cleanup_jobs_def
      ttl_evict_def removable_def capacity_evict_def JOBS_MAX_ITEMS_def rebuild_index_def existing_job_def)

section \<open>The health probe: proofs\<close>

text \<open>
  Claim C9, as the code has it. The probe runs retention and answers with exactly seven
  entries, among them the number of live records, the size of the idempotency index and
  the per-job timeout budget; there is no entry for the retention window or the capacity.
\<close>

theorem health_body:
  "fst (health tm now rid s) =
     [(''status'', JStr ''ok''), (''service'', JStr ''backend-ai-mvp''), (''version'', JStr ''0.5.0''),
      (''jobsInMemory'', JInt (int (length (jobs (snd (health tm now rid s)))))),
      (''idempotencyKeysInMemory'', JInt (int (length (jobs_by_idempotency (snd (health tm now rid s)))))),
      (''jobRunTimeoutSec'', JNum JOB_RUN_TIMEOUT_SECONDS),
      (''requestId'', JStr rid)]
   \<and> snd (health tm now rid s) = cleanup_jobs tm now s
   \<and> reports (fst (health tm now rid s)) (real (length (jobs (cleanup_jobs tm now s))))
   \<and> reports (fst (health tm now rid s)) JOB_RUN_TIMEOUT_SECONDS"
  by (simp add: health_def Let_def reports_def num_of_def)

text \<open>
  Claim C9 as stated fails: on the empty store no value of the body is the retention
  window (1800) or the capacity (200).
\<close>

theorem health_constants_counterexample:
  "\<not> (reports (fst (health stamp_table 1000 ''r1'' empty_store)) JOBS_TTL_SECONDS
      \<and> reports (fst (health stamp_table 1000 ''r1'' empty_store)) (real JOBS_MAX_ITEMS)
      \<and> reports (fst (health stamp_table 1000 ''r1'' empty_store)) JOB_RUN_TIMEOUT_SECONDS)"
  by (simp add: health_def Let_def reports_def num_of_def JOBS_TTL_SECONDS_def JOBS_MAX_ITEMS_def
      JOB_RUN_TIMEOUT_SECONDS_def empty_store_def cleanup_jobs_def ttl_evict_def removable_def
      capacity_evict_def rebuild_index_def)

section \<open>The execution path and the result handler: proofs\<close>

lemmas cleanup_eval = cleanup_jobs_def ttl_evict_def removable_def capacity_evict_def
  JOBS_MAX_ITEMS_def rebuild_index_def index_step_def expired_def job_time_to_epoch_def
  JOBS_TTL_SECONDS_def stamp_table_def

text \<open>
  Claim C2, as the code has it. When the second block finds the record and it is not
  canceled: after a call that returned, an elapsed time above the budget makes the record
  \<open>Timeout\<close> with the fixed message and a stamped \<open>finishedAt\<close>, its \<open>result\<close> left as
  it was, and an elapsed time within the budget makes it \<open>Done\<close> with the result;
  after a call that raised, the record is \<open>Failed\<close> with the text of the exception,
  whatever the elapsed time.
\<close>

theorem process_job_end_timeout:
  assumes "map_of (jobs s) job_id = Some record" and "status record \<noteq> Canceled"
  shows "(elapsed_s > JOB_RUN_TIMEOUT_SECONDS \<longrightarrow>
            process_job_end job_id (Inr res) elapsed_s stamp s =
              s\<lparr>jobs := AList.update job_id
                   (record\<lparr>status := Timeout, error := Some ''job exceeded processing timeout'',
                           finishedAt := Some stamp\<rparr>) (jobs s)\<rparr>
            \<and> map_option result (map_of (jobs (process_job_end job_id (Inr res) elapsed_s stamp s)) job_id)
                = Some (result record))
       \<and> (\<not> elapsed_s > JOB_RUN_TIMEOUT_SECONDS \<longrightarrow>
            process_job_end job_id (Inr res) elapsed_s stamp s =
              s\<lparr>jobs := AList.update job_id
                   (record\<lparr>status := Done, finishedAt := Some stamp, result := Some res\<rparr>) (jobs s)\<rparr>)
       \<and> process_job_end job_id (Inl exc) elapsed_s stamp s =
              s\<lparr>jobs := AList.update job_id
                   (record\<lparr>status := Failed, error := Some exc, finishedAt := Some stamp\<rparr>) (jobs s)\<rparr>"
  using assms by (simp add: process_job_end_def mark_job_finished_def update_conv')

theorem process_job_end_timeout_witness:
  "map_of (jobs demo_store) ''c'' = Some ((demo_record ''c'' Running ''t2000'' None)\<lparr>startedAt := Some ''t2000''\<rparr>)
   \<and> status ((demo_record ''c'' Running ''t2000'' None)\<lparr>startedAt := Some ''t2000''\<rparr>) \<noteq> Canceled
   \<and> 9 > JOB_RUN_TIMEOUT_SECONDS
   \<and> map_option status (map_of (jobs (process_job_end ''c'' (Inr demo_result) 9 ''t9000'' demo_store)) ''c'')
       = Some Timeout
   \<and> map_option result (map_of (jobs (process_job_end ''c'' (Inr demo_result) 9 ''t9000'' demo_store)) ''c'')
       = Some None"
proof -
  have a: "map_of (jobs demo_store) ''c'' = Some ((demo_record ''c'' Running ''t2000'' None)\<lparr>startedAt := Some ''t2000''\<rparr>)"
    by (simp add: demo_store_def)
  have b: "status ((demo_record ''c'' Running ''t2000'' None)\<lparr>startedAt := Some ''t2000''\<rparr>) \<noteq> Canceled"
    by (simp add: demo_record_def)
  have c: "9 > JOB_RUN_TIMEOUT_SECONDS" by (simp add: JOB_RUN_TIMEOUT_SECONDS_def)
  from process_job_end_timeout [OF a b, of 9 demo_result "''t9000''"] c a b
  show ?thesis by (simp add: update_conv' demo_record_def)
qed

text \<open>
  Claim C2 as stated fails when the executor raises: the elapsed time is above the budget,
  the record is running, and it ends \<open>Failed\<close>, not \<open>Timeout\<close>.
\<close>

theorem process_job_end_timeout_counterexample:
  "map_option status (map_of (jobs demo_store) ''c'') = Some Running
   \<and> 9 > JOB_RUN_TIMEOUT_SECONDS
   \<and> map_option status (map_of (jobs (process_job_end ''c'' (Inl ''boom'') 9 ''t9000'' demo_store)) ''c'')
       = Some Failed"
  by (simp add: demo_store_def demo_record_def JOB_RUN_TIMEOUT_SECONDS_def process_job_end_def
      mark_job_finished_def)

text \<open>
  Claim C4, as the code has it. \<open>get_job_result\<close> runs retention; it answers 404 iff the
  job is not live; for a \<open>Failed\<close>, \<open>Timeout\<close> or \<open>Canceled\<close> record it answers 409 with the
  code of that status and, as message, the stored error when that is a non-empty string
  and the default of that status otherwise; for a \<open>Pending\<close> or \<open>Running\<close> record, or a
  \<open>Done\<close> one without result, it answers 409 \<open>job_not_completed\<close>; and it succeeds, with
  the stored payload, exactly when the record is \<open>Done\<close> with a result.
\<close>

theorem get_job_result_contract:
  "snd (get_job_result tm now rid job_id s) = cleanup_jobs tm now s
   \<and> ((\<exists>e. fst (get_job_result tm now rid job_id s) = Inl e \<and> status_code e = 404)
        \<longleftrightarrow> map_of (jobs (cleanup_jobs tm now s)) job_id = None)
   \<and> (map_of (jobs (cleanup_jobs tm now s)) job_id = None \<longrightarrow>
        fst (get_job_result tm now rid job_id s) = Inl (job_not_found job_id rid))
   \<and> (\<forall>record. map_of (jobs (cleanup_jobs tm now s)) job_id = Some record \<longrightarrow>
         (status record = Failed \<longrightarrow>
            fst (get_job_result tm now rid job_id s) =
              Inl (api_error 409 ''job_failed'' (error_or (error record) ''job failed'') rid
                     [(''jobId'', JStr job_id)]))
       \<and> (status record = Timeout \<longrightarrow>
            fst (get_job_result tm now rid job_id s) =
              Inl (api_error 409 ''job_timeout'' (error_or (error record) ''job timeout'') rid
                     [(''jobId'', JStr job_id)]))
       \<and> (status record = Canceled \<longrightarrow>
            fst (get_job_result tm now rid job_id s) =
              Inl (api_error 409 ''job_canceled'' (error_or (error record) ''job canceled'') rid
                     [(''jobId'', JStr job_id)]))
       \<and> (status record \<in> {Pending, Running} \<or> (status record = Done \<and> result record = None) \<longrightarrow>
            fst (get_job_result tm now rid job_id s) =
              Inl (api_error 409 ''job_not_completed'' ''job not completed'' rid
                     [(''jobId'', JStr job_id), (''status'', JStr (status_name (status record)))]))
       \<and> (\<forall>res. status record = Done \<and> result record = Some res \<longrightarrow>
            fst (get_job_result tm now rid job_id s) =
              Inr \<lparr>rr_objects = objects res, rr_modelVersion = modelVersion res,
                    rr_latencyMs = latencyMs res, rr_requestId = dr_requestId res,
                    rr_jobId = jobId record\<rparr>))
   \<and> ((\<exists>ok. fst (get_job_result tm now rid job_id s) = Inr ok)
        \<longleftrightarrow> (\<exists>record res. map_of (jobs (cleanup_jobs tm now s)) job_id = Some record
                          \<and> status record = Done \<and> result record = Some res))
   \<and> (\<forall>m. m \<noteq> [] \<longrightarrow> error_or (Some m) dflt = m)
   \<and> error_or None dflt = dflt \<and> error_or (Some []) dflt = dflt"
proof -
  show ?thesis
  proof (cases "map_of (jobs (cleanup_jobs tm now s)) job_id")
    case None
    then show ?thesis
      by (simp add: get_job_result_def Let_def job_not_found_def api_error_def error_or_def)
  next
    case (Some r)
    then show ?thesis
      by (cases "status r"; cases "result r")
         (simp_all add: get_job_result_def Let_def api_error_def error_or_def)
  qed
qed

lemma failed_empty_store_eq:
  "failed_empty_store = \<lparr>jobs = [(''a'', \<lparr>jobId = ''a'', status = Failed, task = ''detect-objects'',
        createdAt = ''t1000'', startedAt = Some ''t1000'', finishedAt = Some ''t2000'',
        error = Some [], result = None, idempotencyKey = None\<rparr>)], jobs_by_idempotency = []\<rparr>"
  by (simp add: failed_empty_store_def create_job_def demo_request_def empty_store_def
      existing_job_def process_job_begin_def process_job_end_def mark_job_finished_def cleanup_eval)

text \<open>
  Claim C4 as stated fails on the message: the record is \<open>Failed\<close>, its stored error is the
  empty string, and the message of the answer is the default \<open>job failed\<close>.
\<close>

theorem get_job_result_message_counterexample:
  "map_option status (map_of (jobs (cleanup_jobs stamp_table 2001 failed_empty_store)) ''a'') = Some Failed
   \<and> map_option error (map_of (jobs (cleanup_jobs stamp_table 2001 failed_empty_store)) ''a'') = Some (Some [])
   \<and> fst (get_job_result stamp_table 2001 ''r2'' ''a'' failed_empty_store) =
       Inl (api_error 409 ''job_failed'' ''job failed'' ''r2'' [(''jobId'', JStr ''a'')])"
  by (simp add: failed_empty_store_eq get_job_result_def error_or_def cleanup_eval)

theorem get_job_result_contract_witness:
  "map_of (jobs (cleanup_jobs stamp_table 2001 failed_empty_store)) ''a'' \<noteq> None
   \<and> fst (get_job_result stamp_table 2001 ''r2'' ''a'' failed_empty_store) =
       Inl (api_error 409 ''job_failed'' ''job failed'' ''r2'' [(''jobId'', JStr ''a'')])
   \<and> fst (get_job_result stamp_table 2001 ''r2'' ''zz'' failed_empty_store) = Inl (job_not_found ''zz'' ''r2'')"
proof -
  have c: "cleanup_jobs stamp_table 2001 failed_empty_store = failed_empty_store"
    by (simp add: failed_empty_store_eq cleanup_eval)
  have a: "map_of (jobs (cleanup_jobs stamp_table 2001 failed_empty_store)) ''a'' =
             Some \<lparr>jobId = ''a'', status = Failed, task = ''detect-objects'',
        createdAt = ''t1000'', startedAt = Some ''t1000'', finishedAt = Some ''t2000'',
        error = Some [], result = None, idempotencyKey = None\<rparr>"
    unfolding c by (simp add: failed_empty_store_eq)
  have z: "map_of (jobs (cleanup_jobs stamp_table 2001 failed_empty_store)) ''zz'' = None"
    unfolding c by (simp add: failed_empty_store_eq)
  from get_job_result_contract [of stamp_table 2001 "''r2''" "''a''" failed_empty_store "''job failed''"]
       get_job_result_contract [of stamp_table 2001 "''r2''" "''zz''" failed_empty_store "''job failed''"]
       a z
  show ?thesis by (simp add: error_or_def)
qed

section \<open>Cancel: proofs\<close>

text \<open>
  Claim C5. \<open>cancel_job\<close> runs retention; it answers 404 iff the job is not live and 409
  iff the live record is \<open>Done\<close>, \<open>Failed\<close> or \<open>Timeout\<close>, the store being the one retention
  left in both cases. A \<open>Pending\<close> or \<open>Running\<close> record becomes \<open>Canceled\<close> with the fixed
  message and \<open>finishedAt\<close> stamped, nothing else of it changing, and the view returned
  shows the job's id, task and times with status \<open>Canceled\<close>, that message and that
  stamp. For a record that is \<open>Canceled\<close> already the store is left as retention left it,
  the record stays as it is, and the view returned shows its fields as stored: the fixed
  message and a \<open>finishedAt\<close>, for a record that fits \<open>record_ok\<close>.
\<close>

theorem cancel_job_contract:
  "((\<exists>e. fst (cancel_job tm now stamp rid job_id s) = Inl e \<and> status_code e = 404)
        \<longleftrightarrow> map_of (jobs (cleanup_jobs tm now s)) job_id = None)
   \<and> (map_of (jobs (cleanup_jobs tm now s)) job_id = None \<longrightarrow>
        cancel_job tm now stamp rid job_id s =
          (Inl (HTTPException 404 \<lparr>code = ''job_not_found'', message = ''job not found'',
                  requestId = rid, details = Some [(''jobId'', JStr job_id)]\<rparr>),
           cleanup_jobs tm now s))
   \<and> ((\<exists>e. fst (cancel_job tm now stamp rid job_id s) = Inl e \<and> status_code e = 409)
        \<longleftrightarrow> (\<exists>record. map_of (jobs (cleanup_jobs tm now s)) job_id = Some record
                      \<and> status record \<in> {Done, Failed, Timeout}))
   \<and> (\<forall>record. map_of (jobs (cleanup_jobs tm now s)) job_id = Some record
          \<and> status record \<in> {Done, Failed, Timeout} \<longrightarrow>
        cancel_job tm now stamp rid job_id s =
          (Inl (HTTPException 409 \<lparr>code = ''job_not_cancelable'', message = ''job already completed'',
                  requestId = rid,
                  details = Some [(''jobId'', JStr job_id),
                                  (''status'', JStr (status_name (status record)))]\<rparr>),
           cleanup_jobs tm now s))
   \<and> (\<forall>record. map_of (jobs (cleanup_jobs tm now s)) job_id = Some record
          \<and> status record \<in> {Pending, Running} \<longrightarrow>
        cancel_job tm now stamp rid job_id s =
          (Inr \<lparr>sr_jobId = jobId record, sr_status = Canceled, sr_task = task record,
                 sr_createdAt = createdAt record, sr_startedAt = startedAt record,
                 sr_finishedAt = Some stamp, sr_error = Some ''job canceled by user'',
                 sr_requestId = rid\<rparr>,
           (cleanup_jobs tm now s)\<lparr>jobs := AList.update job_id
                 (record\<lparr>status := Canceled, error := Some ''job canceled by user'',
                         finishedAt := Some stamp\<rparr>) (jobs (cleanup_jobs tm now s))\<rparr>)
        \<and> map_of (jobs (snd (cancel_job tm now stamp rid job_id s))) job_id =
              Some (record\<lparr>status := Canceled, error := Some ''job canceled by user'',
                           finishedAt := Some stamp\<rparr>))
   \<and> (\<forall>record. map_of (jobs (cleanup_jobs tm now s)) job_id = Some record
          \<and> status record = Canceled \<longrightarrow>
        cancel_job tm now stamp rid job_id s =
          (Inr \<lparr>sr_jobId = jobId record, sr_status = Canceled, sr_task = task record,
                 sr_createdAt = createdAt record, sr_startedAt = startedAt record,
                 sr_finishedAt = finishedAt record, sr_error = error record,
                 sr_requestId = rid\<rparr>,
           cleanup_jobs tm now s)
        \<and> map_of (jobs (snd (cancel_job tm now stamp rid job_id s))) job_id = Some record
        \<and> (record_ok record \<longrightarrow>
              error record = Some ''job canceled by user'' \<and> finishedAt record \<noteq> None))"
proof (cases "map_of (jobs (cleanup_jobs tm now s)) job_id")
  case None
  then show ?thesis
    by (simp add: cancel_job_def Let_def job_not_found_def api_error_def)
next
  case (Some r)
  then show ?thesis
    by (cases "status r")
       (simp_all add: cancel_job_def Let_def api_error_def mark_job_finished_def update_conv'
          record_ok_def to_job_status_response_def)
qed

theorem cancel_job_contract_witness:
  "map_of (jobs (cleanup_jobs stamp_table 2500 demo_store)) ''b'' = Some (demo_record ''b'' Pending ''t3000'' (Some ''k2''))
   \<and> status (demo_record ''b'' Pending ''t3000'' (Some ''k2'')) \<in> {Pending, Running}
   \<and> fst (cancel_job stamp_table 2500 ''t3000'' ''r3'' ''b'' demo_store) =
        Inr \<lparr>sr_jobId = ''b'', sr_status = Canceled, sr_task = ''detect-objects'',
               sr_createdAt = ''t3000'', sr_startedAt = None,
               sr_finishedAt = Some ''t3000'', sr_error = Some ''job canceled by user'',
               sr_requestId = ''r3''\<rparr>
   \<and> map_option status (map_of (jobs (snd (cancel_job stamp_table 2500 ''t3000'' ''r3'' ''b'' demo_store))) ''b'')
        = Some Canceled
   \<and> map_of (jobs (cleanup_jobs stamp_table 2500 demo_store)) ''a'' \<noteq> None
   \<and> (\<exists>e. fst (cancel_job stamp_table 2500 ''t3000'' ''r3'' ''a'' demo_store) = Inl e \<and> status_code e = 409)
   \<and> map_of (jobs (cleanup_jobs stamp_table 2500 demo_store)) ''zz'' = None
   \<and> (\<exists>e. fst (cancel_job stamp_table 2500 ''t3000'' ''r3'' ''zz'' demo_store) = Inl e \<and> status_code e = 404)"
proof -
  have c: "jobs (cleanup_jobs stamp_table 2500 demo_store) = jobs demo_store"
    by (simp add: demo_store_def demo_record_def cleanup_eval)
  have b: "map_of (jobs (cleanup_jobs stamp_table 2500 demo_store)) ''b'' = Some (demo_record ''b'' Pending ''t3000'' (Some ''k2''))"
    unfolding c by (simp add: demo_store_def)
  have a: "\<exists>record. map_of (jobs (cleanup_jobs stamp_table 2500 demo_store)) ''a'' = Some record \<and> status record \<in> {Done, Failed, Timeout}"
    unfolding c by (simp add: demo_store_def demo_record_def)
  have z: "map_of (jobs (cleanup_jobs stamp_table 2500 demo_store)) ''zz'' = None"
    unfolding c by (simp add: demo_store_def)
  have p: "status (demo_record ''b'' Pending ''t3000'' (Some ''k2'')) \<in> {Pending, Running}"
    by (simp add: demo_record_def)
  note t = cancel_job_contract [of stamp_table 2500 "''t3000''" "''r3''" _ demo_store]
  from t [of "''b''"] b p
  have 1: "cancel_job stamp_table 2500 ''t3000'' ''r3'' ''b'' demo_store =
          (Inr \<lparr>sr_jobId = jobId (demo_record ''b'' Pending ''t3000'' (Some ''k2'')), sr_status = Canceled,
                 sr_task = task (demo_record ''b'' Pending ''t3000'' (Some ''k2'')),
                 sr_createdAt = createdAt (demo_record ''b'' Pending ''t3000'' (Some ''k2'')),
                 sr_startedAt = startedAt (demo_record ''b'' Pending ''t3000'' (Some ''k2'')),
                 sr_finishedAt = Some ''t3000'', sr_error = Some ''job canceled by user'',
                 sr_requestId = ''r3''\<rparr>,
           (cleanup_jobs stamp_table 2500 demo_store)\<lparr>jobs := AList.update ''b''
                 ((demo_record ''b'' Pending ''t3000'' (Some ''k2''))\<lparr>status := Canceled, error := Some ''job canceled by user'',
                         finishedAt := Some ''t3000''\<rparr>) (jobs (cleanup_jobs stamp_table 2500 demo_store))\<rparr>)"
    and h1: "map_of (jobs (snd (cancel_job stamp_table 2500 ''t3000'' ''r3'' ''b'' demo_store))) ''b'' =
              Some ((demo_record ''b'' Pending ''t3000'' (Some ''k2''))\<lparr>status := Canceled, error := Some ''job canceled by user'',
                           finishedAt := Some ''t3000''\<rparr>)"
    by blast+
  have 2: "\<exists>e. fst (cancel_job stamp_table 2500 ''t3000'' ''r3'' ''a'' demo_store) = Inl e \<and> status_code e = 409"
    using t [of "''a''"] a by blast
  have 3: "\<exists>e. fst (cancel_job stamp_table 2500 ''t3000'' ''r3'' ''zz'' demo_store) = Inl e \<and> status_code e = 404"
    using t [of "''zz''"] z by blast
  from a have a': "map_of (jobs (cleanup_jobs stamp_table 2500 demo_store)) ''a'' \<noteq> None" by auto
  from 1 have 4: "fst (cancel_job stamp_table 2500 ''t3000'' ''r3'' ''b'' demo_store) =
        Inr \<lparr>sr_jobId = ''b'', sr_status = Canceled, sr_task = ''detect-objects'',
               sr_createdAt = ''t3000'', sr_startedAt = None,
               sr_finishedAt = Some ''t3000'', sr_error = Some ''job canceled by user'',
               sr_requestId = ''r3''\<rparr>"
    by (simp add: demo_record_def)
  from h1 have 5: "map_option status (map_of (jobs (snd (cancel_job stamp_table 2500 ''t3000'' ''r3'' ''b'' demo_store))) ''b'')
        = Some Canceled" by simp
  from b p 4 5 a' 2 z 3 show ?thesis by blast
qed

section \<open>The task literal: proofs\<close>

text \<open>
  Claim C10. A body whose task is not \<open>detect-objects\<close> is answered 422 by request
  validation, with the store untouched and nothing scheduled: the handler does not run.
  When the handler runs, its test \<open>payload.task != "detect-objects"\<close> is false and it
  answers with a response. So the endpoint never answers \<open>unsupported_task\<close>, the error
  that \<open>create_job\<close> gives exactly for the tasks validation has rejected.
\<close>

theorem unsupported_task_unreachable:
  "(rq_task body \<noteq> ''detect-objects'' \<longrightarrow>
      post_jobs tm now_epoch now new_id rid body s =
        (Inl (api_error 422 ''validation_error'' ''Request validation failed'' rid
               [(''path'', JStr ''/jobs'')]), s, None))
   \<and> (rq_task body = ''detect-objects'' \<longrightarrow>
      post_jobs tm now_epoch now new_id rid body s = create_job tm now_epoch now new_id rid body s
      \<and> (\<exists>ok. fst (create_job tm now_epoch now new_id rid body s) = Inr ok))
   \<and> (\<forall>e. fst (post_jobs tm now_epoch now new_id rid body s) = Inl e \<longrightarrow>
          code (detail e) \<noteq> ''unsupported_task'' \<and> status_code e = 422)
   \<and> ((\<exists>e. fst (create_job tm now_epoch now new_id rid body s) = Inl e
             \<and> code (detail e) = ''unsupported_task'')
        \<longleftrightarrow> rq_task body \<noteq> ''detect-objects'')"
  by (auto simp: post_jobs_def create_job_def api_error_def Let_def split: option.splits)

theorem unsupported_task_unreachable_witness:
  "rq_task ((demo_request None)\<lparr>rq_task := ''resize''\<rparr>) \<noteq> ''detect-objects''
   \<and> post_jobs stamp_table 1000 ''t1000'' ''a'' ''r1'' ((demo_request None)\<lparr>rq_task := ''resize''\<rparr>) empty_store
       = (Inl (api_error 422 ''validation_error'' ''Request validation failed'' ''r1''
               [(''path'', JStr ''/jobs'')]), empty_store, None)
   \<and> rq_task (demo_request None) = ''detect-objects''
   \<and> (\<exists>ok. fst (post_jobs stamp_table 1000 ''t1000'' ''a'' ''r1'' (demo_request None) empty_store) = Inr ok)"
proof -
  have a: "rq_task ((demo_request None)\<lparr>rq_task := ''resize''\<rparr>) \<noteq> ''detect-objects''"
    by (simp add: demo_request_def)
  have b: "rq_task (demo_request None) = ''detect-objects''"
    by (simp add: demo_request_def)
  from unsupported_task_unreachable [of "(demo_request None)\<lparr>rq_task := ''resize''\<rparr>" stamp_table 1000 "''t1000''" "''a''" "''r1''" empty_store]
       unsupported_task_unreachable [of "demo_request None" stamp_table 1000 "''t1000''" "''a''" "''r1''" empty_store]
       a b
  show ?thesis by simp
qed

section \<open>Idempotent replay: proofs\<close>

lemma jobs_cleanup_filter:
  "\<exists>Q. jobs (cleanup_jobs tm now s) = filter Q (jobs s)"
proof -
  have "jobs (cleanup_jobs tm now s) =
          filter (\<lambda>p. fst p \<notin> set (removable tm now (jobs s))
                     \<and> fst p \<notin> set (overflow_ids tm (ttl_evict tm now (jobs s)))) (jobs s)"
    by (simp add: jobs_cleanup capacity_evict_filter ttl_evict_def fold_delete_filter conj_commute)
  then show ?thesis by blast
qed

lemma store_wf_cleanup: "store_wf s \<Longrightarrow> store_wf (cleanup_jobs tm now s)"
proof -
  assume wf: "store_wf s"
  obtain Q where Q: "jobs (cleanup_jobs tm now s) = filter Q (jobs s)"
    using jobs_cleanup_filter by blast
  show ?thesis using wf unfolding store_wf_def Q by (auto simp: distinct_map_filter)
qed

lemma map_of_cleanup_Some:
  assumes d: "distinct (map fst (jobs s))"
    and m: "map_of (jobs (cleanup_jobs tm now s)) j = Some r"
  shows "map_of (jobs s) j = Some r"
proof -
  from m have "(j, r) \<in> set (jobs (cleanup_jobs tm now s))" by (rule map_of_SomeD)
  then have "(j, r) \<in> set (jobs s)" using set_cleanup_subset by blast
  with d show ?thesis by simp
qed

lemma last_filter_keep:
  assumes "ys \<noteq> []" and "Q (last ys)"
  shows "last (filter Q ys) = last ys \<and> filter Q ys \<noteq> []"
proof (cases ys rule: rev_cases)
  case Nil
  with assms show ?thesis by simp
next
  case (snoc zs y)
  with assms show ?thesis by simp
qed


lemma last_key_survives:
  assumes d: "distinct (map fst (jobs s))"
    and k: "k \<noteq> []"
    and l: "filter (\<lambda>item. idempotencyKey (snd item) = Some k) (jobs s) \<noteq> []"
           "fst (last (filter (\<lambda>item. idempotencyKey (snd item) = Some k) (jobs s))) = j"
    and live: "map_of (jobs (cleanup_jobs tm now s)) j = Some r"
  shows "map_of (jobs_by_idempotency (cleanup_jobs tm now s)) k = Some j"
proof -
  let ?P = "\<lambda>item. idempotencyKey (snd item) = Some k"
  obtain Q where Q: "jobs (cleanup_jobs tm now s) = filter Q (jobs s)"
    using jobs_cleanup_filter by blast
  let ?ms = "filter ?P (jobs s)"
  have lin: "last ?ms \<in> set ?ms" using l(1) by (rule last_in_set)
  then have lin': "last ?ms \<in> set (jobs s)" by simp
  from live have "(j, r) \<in> set (filter Q (jobs s))" unfolding Q [symmetric] by (rule map_of_SomeD)
  then have jr: "(j, r) \<in> set (jobs s)" "Q (j, r)" by auto
  from d jr(1) lin' l(2) have "last ?ms = (j, r)"
    by (metis eq_key_imp_eq_value prod.collapse)
  with jr(2) have "Q (last ?ms)" by simp
  with l(1) have "last (filter Q ?ms) = last ?ms \<and> filter Q ?ms \<noteq> []"
    by (rule last_filter_keep)
  moreover have "filter ?P (filter Q (jobs s)) = filter Q ?ms" by (simp add: conj_commute)
  ultimately show ?thesis
    using k l(2) by (simp add: index_cleanup map_of_rebuild_index Let_def Q)
qed


lemma set_update_subset: "set (AList.update k v al) \<subseteq> insert (k, v) (set al)"
  by (induction al) auto

lemma update_mem: "(k, v) \<in> set (AList.update k v al)"
  by (induction al) auto

lemma index_no_empty_key: "map_of (jobs_by_idempotency (cleanup_jobs tm now s)) [] = None"
  by (simp add: index_cleanup map_of_rebuild_index)

lemma store_wf_lookup:
  assumes "store_wf s" and "map_of (jobs s) j = Some r"
  shows "jobId r = j \<and> j \<noteq> []"
proof -
  from assms(2) have "(j, r) \<in> set (jobs s)" by (rule map_of_SomeD)
  with assms(1) show ?thesis unfolding store_wf_def by fastforce
qed

lemma create_job_replay_hit:
  assumes wf: "store_wf s"
    and task: "rq_task payload = ''detect-objects''"
    and key: "rq_idempotencyKey payload = Some k"
    and idx: "map_of (jobs_by_idempotency (cleanup_jobs tm now_epoch s)) k = Some job_id"
    and live: "map_of (jobs (cleanup_jobs tm now_epoch s)) job_id = Some r"
  shows "create_job tm now_epoch now new_id rid payload s =
           (Inr \<lparr>cr_jobId = job_id, cr_status = status r, cr_acceptedAt = createdAt r,
                  cr_requestId = rid\<rparr>, cleanup_jobs tm now_epoch s, None)"
proof -
  have k: "k \<noteq> []" using idx index_no_empty_key [of tm now_epoch s] by auto
  have "store_wf (cleanup_jobs tm now_epoch s)" using wf by (rule store_wf_cleanup)
  then have j: "jobId r = job_id \<and> job_id \<noteq> []" using live by (rule store_wf_lookup)
  have "existing_job payload (cleanup_jobs tm now_epoch s) = Some r"
    using key k idx live j by (simp add: existing_job_def)
  then show ?thesis using task j by (simp add: create_job_def Let_def)
qed

lemma create_job_carries_key:
  assumes wf: "store_wf s"
    and task: "rq_task payload = ''detect-objects''"
    and key: "rq_idempotencyKey payload = Some k" and k: "k \<noteq> []"
    and new: "new_id \<noteq> []"
  shows "\<exists>ok r. fst (create_job tm now_epoch now new_id rid payload s) = Inr ok
           \<and> store_wf (fst (snd (create_job tm now_epoch now new_id rid payload s)))
           \<and> filter (\<lambda>item. idempotencyKey (snd item) = Some k)
                 (jobs (fst (snd (create_job tm now_epoch now new_id rid payload s)))) \<noteq> []
           \<and> last (filter (\<lambda>item. idempotencyKey (snd item) = Some k)
                 (jobs (fst (snd (create_job tm now_epoch now new_id rid payload s))))) = (cr_jobId ok, r)
           \<and> createdAt r = cr_acceptedAt ok"
proof -
  let ?c = "cleanup_jobs tm now_epoch s"
  let ?P = "\<lambda>item. idempotencyKey (snd item) = Some k"
  let ?ms = "filter ?P (jobs ?c)"
  have wfc: "store_wf ?c" using wf by (rule store_wf_cleanup)
  then have dc: "distinct (map fst (jobs ?c))" by (simp add: store_wf_def)
  show ?thesis
  proof (cases "?ms = []")
    case True
    then have none: "\<forall>item \<in> set (jobs ?c). idempotencyKey (snd item) \<noteq> Some k"
      by (simp add: filter_empty_conv)
    have "map_of (jobs_by_idempotency ?c) k = None"
      using True by (simp add: index_cleanup map_of_rebuild_index Let_def)
    then have ex: "existing_job payload ?c = None"
      using key by (simp add: existing_job_def)
    let ?rec = "\<lparr>jobId = new_id, status = Pending, task = rq_task payload,
                             createdAt = now, startedAt = None, finishedAt = None,
                             error = None, result = None,
                             idempotencyKey = rq_idempotencyKey payload\<rparr>"
    let ?js = "AList.update new_id ?rec (jobs ?c)"
    have s1: "jobs (fst (snd (create_job tm now_epoch now new_id rid payload s))) = ?js"
      and r1: "fst (create_job tm now_epoch now new_id rid payload s) =
                 Inr \<lparr>cr_jobId = new_id, cr_status = Pending, cr_acceptedAt = now, cr_requestId = rid\<rparr>"
      using ex task key k by (simp_all add: create_job_def Let_def)
    have setjs: "set ?js \<subseteq> insert (new_id, ?rec) (set (jobs ?c))"
      by (rule set_update_subset)
    have inn: "(new_id, ?rec) \<in> set ?js"
      by (rule update_mem)
    have djs: "distinct (map fst ?js)" using dc by (rule distinct_update)
    have wf1: "store_wf (fst (snd (create_job tm now_epoch now new_id rid payload s)))"
      unfolding store_wf_def s1 using djs setjs wfc new unfolding store_wf_def by auto
    have only: "\<forall>item \<in> set ?js. ?P item \<longrightarrow> item = (new_id, ?rec)"
      using setjs none by auto
    have ne: "filter ?P ?js \<noteq> []"
      using inn key by (force simp: filter_empty_conv)
    then have "last (filter ?P ?js) \<in> set (filter ?P ?js)" by (rule last_in_set)
    with only have "last (filter ?P ?js) = (new_id, ?rec)" by auto
    with ne wf1 r1 show ?thesis unfolding s1 by simp
  next
    case False
    then have lin: "last ?ms \<in> set ?ms" by (rule last_in_set)
    obtain j r where jr: "last ?ms = (j, r)" by (cases "last ?ms")
    with lin have mem: "(j, r) \<in> set (jobs ?c)" by auto
    with dc have look: "map_of (jobs ?c) j = Some r" by simp
    have idx: "map_of (jobs_by_idempotency ?c) k = Some j"
      using False k jr by (simp add: index_cleanup map_of_rebuild_index Let_def)
    note hit = create_job_replay_hit [OF wf task key idx look, of now new_id rid]
    show ?thesis unfolding hit using wfc False jr by simp
  qed
qed

lemma demo_store_cleanup_2500: "cleanup_jobs stamp_table 2500 demo_store = demo_store"
  by (simp add: demo_store_def demo_record_def cleanup_eval)


section \<open>Listing and cursors: proofs\<close>

lemma digit_char_facts:
  assumes "n < 10"
  shows "is_digit (digit_char n) \<and> digit_val (digit_char n) = int n \<and> \<not> is_space (digit_char n)
         \<and> digit_char n \<noteq> CHR ''-'' \<and> digit_char n \<noteq> CHR ''+'' \<and> digit_char n \<noteq> CHR ''_''"
proof -
  from assms have "n \<in> set [0..<10]" by simp
  then show ?thesis
    unfolding is_digit_def digit_val_def is_space_def digit_char_def
    by (simp add: upt_rec) (elim disjE; simp)
qed

lemma strip_no_space:
  assumes "\<forall>c \<in> set cs. \<not> is_space c"
  shows "strip cs = cs"
proof -
  have dw: "dropWhile is_space xs = xs" if "\<forall>c \<in> set xs. \<not> is_space c" for xs
    using that by (cases xs) auto
  have "dropWhile is_space cs = cs" using assms by (rule dw)
  moreover have "dropWhile is_space (rev cs) = rev cs" using assms by (intro dw) simp
  ultimately show ?thesis by (simp add: strip_def)
qed


lemma str_nat_small: "n < 10 \<Longrightarrow> str_nat n = [digit_char n]"
  by (subst str_nat.simps) simp

lemma str_nat_big: "\<not> n < 10 \<Longrightarrow> str_nat n = str_nat (n div 10) @ [digit_char (n mod 10)]"
  by (subst str_nat.simps) simp

lemma plain_digit_char: "n < 10 \<Longrightarrow> plain_digit (digit_char n)"
  using digit_char_facts [of n] by (simp add: plain_digit_def)

lemma str_nat_digits: "str_nat n \<noteq> [] \<and> (\<forall>c \<in> set (str_nat n). plain_digit c)"
proof (induction n rule: str_nat.induct)
  case (1 n)
  show ?case
  proof (cases "n < 10")
    case True
    then show ?thesis by (simp add: str_nat_small plain_digit_char)
  next
    case False
    have m: "n mod 10 < 10" by simp
    from False 1 have "\<forall>c \<in> set (str_nat (n div 10)). plain_digit c" by simp
    then show ?thesis using False plain_digit_char [OF m] by (simp add: str_nat_big)
  qed
qed

lemma digits_value_snoc:
  "is_digit d \<Longrightarrow> digits_value (cs @ [d]) = 10 * digits_value cs + digit_val d"
  by (simp add: digits_value_def)

lemma digits_value_str_nat: "digits_value (str_nat n) = int n"
proof (induction n rule: str_nat.induct)
  case (1 n)
  show ?case
  proof (cases "n < 10")
    case True
    then show ?thesis using digit_char_facts [OF True]
      by (simp add: str_nat_small digits_value_def)
  next
    case False
    have m: "n mod 10 < 10" by simp
    have "digits_value (str_nat n) = digits_value (str_nat (n div 10) @ [digit_char (n mod 10)])"
      using False by (simp add: str_nat_big)
    also have "\<dots> = 10 * digits_value (str_nat (n div 10)) + digit_val (digit_char (n mod 10))"
      using digit_char_facts [OF m] by (simp add: digits_value_snoc)
    also have "\<dots> = 10 * int (n div 10) + int (n mod 10)"
      using 1 False digit_char_facts [OF m] by simp
    also have "\<dots> = int n" by presburger
    finally show ?thesis .
  qed
qed

lemma grouped_digits:
  "cs \<noteq> [] \<Longrightarrow> \<forall>c \<in> set cs. plain_digit c \<Longrightarrow> grouped cs"
  by (induction cs rule: grouped.induct) (auto simp: plain_digit_def)

lemma length_str_nat: "0 < k \<Longrightarrow> n < 10 ^ k \<Longrightarrow> length (str_nat n) \<le> k"
proof (induction n arbitrary: k rule: str_nat.induct)
  case (1 n)
  show ?case
  proof (cases "n < 10")
    case True
    then show ?thesis using "1.prems" by (simp add: str_nat_small)
  next
    case False
    obtain m where k: "k = Suc m" using "1.prems"(1) by (cases k) auto
    have m0: "0 < m"
    proof (rule ccontr)
      assume "\<not> 0 < m"
      with k "1.prems"(2) False show False by simp
    qed
    have "n div 10 < 10 ^ m" using "1.prems"(2) k by (simp add: less_mult_imp_div_less mult.commute)
    with "1.IH" [OF False m0] have "length (str_nat (n div 10)) \<le> m" by simp
    then show ?thesis using False k by (simp add: str_nat_big)
  qed
qed

lemma filter_digits_str_nat: "filter is_digit (str_nat n) = str_nat n"
  using str_nat_digits [of n] by (simp add: plain_digit_def)

lemma py_int_str_nat:
  assumes "n < 10 ^ MAX_STR_DIGITS"
  shows "py_int (str_nat n) = Some (int n)"
proof -
  note d = str_nat_digits [of n]
  have s: "strip (str_nat n) = str_nat n" using d by (intro strip_no_space) (simp add: plain_digit_def)
  have g: "grouped (str_nat n)" using d by (intro grouped_digits) auto
  have pos: "0 < MAX_STR_DIGITS" by (simp add: MAX_STR_DIGITS_def)
  have len: "length (filter is_digit (str_nat n)) \<le> MAX_STR_DIGITS"
    unfolding filter_digits_str_nat using pos assms by (rule length_str_nat)
  obtain c r where cr: "str_nat n = c # r" using d by (cases "str_nat n") auto
  with d have c: "c \<noteq> CHR ''-''" "c \<noteq> CHR ''+''" by (auto simp: plain_digit_def)
  have "py_int (c # r) = Some (digits_value (c # r))"
    using g c s len unfolding cr by (simp add: py_int_def Let_def)
  then show ?thesis using digits_value_str_nat [of n] by (simp add: cr)
qed

lemma parse_cursor_py_str:
  assumes "0 \<le> i" and "i < 10 ^ MAX_STR_DIGITS"
  shows "parse_cursor (Some (py_str i)) = Some i"
proof -
  have "nat i < 10 ^ MAX_STR_DIGITS"
  proof -
    have "int (nat i) < int (10 ^ MAX_STR_DIGITS)" using assms by simp
    then show ?thesis by (simp only: of_nat_less_iff)
  qed
  from py_int_str_nat [OF this] str_nat_digits [of "nat i"] assms(1)
  show ?thesis by (simp add: parse_cursor_def py_str_def)
qed


lemma list_jobs_page:
  assumes lim: "1 \<le> limit" "limit \<le> 100"
    and cur: "parse_cursor cursor = Some offset"
  shows "list_jobs tm now rid status_filter limit cursor s =
     (Inr \<lparr>items = map to_list_item
                 (take (nat limit) (drop (nat offset) (filtered_records tm status_filter (cleanup_jobs tm now s)))),
            nextCursor = (if offset + limit < int (length (filtered_records tm status_filter (cleanup_jobs tm now s)))
                          then Some (py_str (offset + limit)) else None),
            lr_requestId = rid\<rparr>, cleanup_jobs tm now s)"
  using assms by (simp add: list_jobs_def Let_def)

lemma parse_cursor_nonneg: "parse_cursor cursor = Some offset \<Longrightarrow> 0 \<le> offset"
  by (auto simp: parse_cursor_def split: option.splits if_splits)

lemma follow_pages_from:
  assumes fixed: "\<forall>now \<in> set clock. cleanup_jobs tm now s = s"
    and cur: "parse_cursor cursor = Some (int k)"
    and k: "k < length (filtered_records tm status_filter s)"
    and enough: "length (filtered_records tm status_filter s) - k \<le> length clock"
    and bound: "int (length (filtered_records tm status_filter s)) < 10 ^ MAX_STR_DIGITS"
  shows "follow_pages tm rid status_filter 1 clock cursor s =
           Some (map (\<lambda>r. [to_list_item r]) (drop k (filtered_records tm status_filter s)))"
  using assms
proof (induction clock arbitrary: k cursor)
  case Nil
  then show ?case by simp
next
  case (Cons now later)
  let ?rs = "filtered_records tm status_filter s"
  have c: "cleanup_jobs tm now s = s" using Cons.prems(1) by simp
  have page: "list_jobs tm now rid status_filter 1 cursor s =
     (Inr \<lparr>items = map to_list_item (take 1 (drop k ?rs)),
            nextCursor = (if int k + 1 < int (length ?rs) then Some (py_str (int k + 1)) else None),
            lr_requestId = rid\<rparr>, s)"
    using list_jobs_page [of 1 cursor "int k" tm now rid status_filter s] Cons.prems(2)
    by (simp add: c)
  have dk: "drop k ?rs = ?rs ! k # drop (Suc k) ?rs"
    using Cons.prems(3) by (simp add: Cons_nth_drop_Suc)
  show ?case
  proof (cases "Suc k < length ?rs")
    case True
    have nc: "parse_cursor (Some (py_str (int k + 1))) = Some (int (Suc k))"
      using parse_cursor_py_str [of "int k + 1"] True Cons.prems(5) by simp
    have "follow_pages tm rid status_filter 1 later (Some (py_str (int k + 1))) s =
            Some (map (\<lambda>r. [to_list_item r]) (drop (Suc k) ?rs))"
      using Cons.prems(1,4,5) True by (intro Cons.IH [OF _ nc]) auto
    then show ?thesis using True page dk by simp
  next
    case False
    with Cons.prems(3) have "drop (Suc k) ?rs = []" by simp
    then show ?thesis using False page dk by simp
  qed
qed

lemma parse_cursor_None: "parse_cursor None = Some 0"
  by (simp add: parse_cursor_def)

lemma distinct_map_sort_key:
  fixes g :: "'a \<Rightarrow> real"
  shows "distinct (map f xs) \<Longrightarrow> distinct (map f (sort_key g xs))"
  by (simp add: distinct_map)

lemma distinct_map_outer: "distinct (map g ys) \<Longrightarrow> distinct ys"
  by (induction ys) auto

lemma distinct_jobIds:
  assumes "store_wf s"
  shows "distinct (map to_list_item (filtered_records tm status_filter s))"
proof -
  have eq: "map jobId (map snd (jobs s)) = map fst (jobs s)"
    using assms by (auto simp: store_wf_def)
  have "distinct (map fst (jobs s))" using assms by (simp add: store_wf_def)
  then have d: "distinct (map jobId (map snd (jobs s)))" by (simp only: eq)
  then have "distinct (map jobId (sorted_records tm s))"
    unfolding sorted_records_def by (rule distinct_map_sort_key)
  then have "distinct (map jobId (filtered_records tm status_filter s))"
    by (cases status_filter) (simp_all add: filtered_records_def distinct_map_filter)
  moreover have "map jobId rs = map li_jobId (map to_list_item rs)" for rs
    by (simp add: to_list_item_def)
  ultimately have "distinct (map li_jobId (map to_list_item (filtered_records tm status_filter s)))"
    by simp
  then show ?thesis by (rule distinct_map_outer)
qed


lemma sorted_records_descending:
  "sorted_wrt (\<lambda>a b. created_epoch tm b \<le> created_epoch tm a) (sorted_records tm s)"
proof -
  have "sorted (map (\<lambda>item. - created_epoch tm item) (sorted_records tm s))"
    unfolding sorted_records_def by (rule sorted_sort_key)
  then show ?thesis by (simp add: sorted_map)
qed

lemma concat_singletons: "concat (map (\<lambda>r. [f r]) rs) = map f rs"
  by (induction rs) auto


lemma below_limit: "n \<le> 200 \<Longrightarrow> int n < 10 ^ MAX_STR_DIGITS"
proof -
  assume n: "n \<le> 200"
  have e: "3 \<le> MAX_STR_DIGITS" by (simp add: MAX_STR_DIGITS_def)
  have "(10::int) ^ 3 \<le> 10 ^ MAX_STR_DIGITS" using e by (intro power_increasing) simp_all
  moreover have "int n < 10 ^ 3" using n by simp
  ultimately show ?thesis by linarith
qed

lemma length_fixed_store:
  assumes "distinct (map fst (jobs s))" and "cleanup_jobs tm now s = s"
  shows "length (jobs s) \<le> 200"
proof -
  have "distinct (map fst (ttl_evict tm now (jobs s)))"
    using assms(1) by (simp add: ttl_evict_filter distinct_map_filter)
  then have "length (capacity_evict tm (ttl_evict tm now (jobs s))) \<le> 200"
    by (simp add: length_capacity_evict JOBS_MAX_ITEMS_def)
  then have "length (jobs (cleanup_jobs tm now s)) \<le> 200" by (simp add: jobs_cleanup)
  with assms(2) show ?thesis by simp
qed

lemma length_filtered_records: "length (filtered_records tm status_filter s) \<le> length (jobs s)"
proof (cases status_filter)
  case None
  then show ?thesis by (simp add: filtered_records_def sorted_records_def)
next
  case (Some st)
  have "length (filter (\<lambda>item. status item = st) (sorted_records tm s)) \<le> length (sorted_records tm s)"
    by (rule length_filter_le)
  then show ?thesis using Some by (simp add: filtered_records_def sorted_records_def)
qed

text \<open>
  What holds of the listing wherever the process runs. Take a well-formed store that
  retention leaves as it is at the time of every call. Then a call of \<open>list_jobs\<close> with a
  limit in 1..100 and a cursor that parses to \<open>offset\<close> returns the items \<open>offset\<close> to
  \<open>offset + limit\<close> of the live records, sorted descending by the epoch read from
  \<open>createdAt\<close> and then filtered by status, with \<open>nextCursor = offset + limit\<close> iff records
  remain beyond the page, and leaves the store alone. A cursor written by \<open>list_jobs\<close>
  parses back to its offset. So a client that lists with limit 1 from no cursor and
  follows \<open>nextCursor\<close>, given at least as many calls as there are records (and at least one
  record), ends with as many pages as records, each of one item, with no item twice, their
  concatenation being the whole sorted sequence; and the page at the last offset carries
  no \<open>nextCursor\<close>.
\<close>

lemma follow_pages_partition:
  assumes fixed: "\<forall>now \<in> set clock. cleanup_jobs tm now s = s"
    and wf: "store_wf s"
    and enough: "length (filtered_records tm status_filter s) \<le> length clock"
  shows "(\<forall>now \<in> set clock. \<forall>(limit :: int) cursor offset.
            1 \<le> limit \<and> limit \<le> 100 \<and> parse_cursor cursor = Some offset \<longrightarrow>
            list_jobs tm now rid status_filter limit cursor s =
              (Inr \<lparr>items = map to_list_item
                        (take (nat limit) (drop (nat offset) (filtered_records tm status_filter s))),
                     nextCursor = (if offset + limit < int (length (filtered_records tm status_filter s))
                                   then Some (py_str (offset + limit)) else None),
                     lr_requestId = rid\<rparr>, s))
       \<and> sorted_wrt (\<lambda>a b. created_epoch tm b \<le> created_epoch tm a) (sorted_records tm s)
       \<and> set (sorted_records tm s) = snd ` set (jobs s)
       \<and> length (sorted_records tm s) = length (jobs s)
       \<and> filtered_records tm None s = sorted_records tm s
       \<and> (\<forall>st. filtered_records tm (Some st) s = filter (\<lambda>item. status item = st) (sorted_records tm s))
       \<and> parse_cursor None = Some 0
       \<and> (\<forall>i. 0 \<le> i \<and> i < 10 ^ MAX_STR_DIGITS \<longrightarrow> parse_cursor (Some (py_str i)) = Some i)
       \<and> (\<forall>r. to_list_item r =
              \<lparr>li_jobId = jobId r, li_status = status r, li_task = task r,
               li_createdAt = createdAt r, li_startedAt = startedAt r,
               li_finishedAt = finishedAt r, li_error = error r\<rparr>)
       \<and> (1 \<le> length (filtered_records tm status_filter s) \<longrightarrow>
            (\<exists>pages. follow_pages tm rid status_filter 1 clock None s = Some pages
               \<and> length pages = length (filtered_records tm status_filter s)
               \<and> (\<forall>p \<in> set pages. length p = 1)
               \<and> concat pages = map to_list_item (filtered_records tm status_filter s)
               \<and> distinct (concat pages))
            \<and> (\<forall>now \<in> set clock. \<exists>page.
                  list_jobs tm now rid status_filter 1
                    (Some (py_str (int (length (filtered_records tm status_filter s)) - 1))) s = (Inr page, s)
                  \<and> nextCursor page = None
                  \<and> items page = [to_list_item (last (filtered_records tm status_filter s))]))"
proof -
  let ?rs = "filtered_records tm status_filter s"
  have a: "\<forall>now \<in> set clock. \<forall>(limit :: int) cursor offset.
            1 \<le> limit \<and> limit \<le> 100 \<and> parse_cursor cursor = Some offset \<longrightarrow>
            list_jobs tm now rid status_filter limit cursor s =
              (Inr \<lparr>items = map to_list_item (take (nat limit) (drop (nat offset) ?rs)),
                     nextCursor = (if offset + limit < int (length ?rs)
                                   then Some (py_str (offset + limit)) else None),
                     lr_requestId = rid\<rparr>, s)"
  proof (intro ballI allI impI)
    fix now and limit :: int and cursor offset
    assume now: "now \<in> set clock"
      and h: "1 \<le> limit \<and> limit \<le> 100 \<and> parse_cursor cursor = Some offset"
    from fixed now have c: "cleanup_jobs tm now s = s" by simp
    from h list_jobs_page [of limit cursor offset tm now rid status_filter s]
    show "list_jobs tm now rid status_filter limit cursor s =
              (Inr \<lparr>items = map to_list_item (take (nat limit) (drop (nat offset) ?rs)),
                     nextCursor = (if offset + limit < int (length ?rs)
                                   then Some (py_str (offset + limit)) else None),
                     lr_requestId = rid\<rparr>, s)"
      by (simp add: c)
  qed
  have b: "set (sorted_records tm s) = snd ` set (jobs s)"
          "length (sorted_records tm s) = length (jobs s)"
          "filtered_records tm None s = sorted_records tm s"
          "\<forall>st. filtered_records tm (Some st) s = filter (\<lambda>item. status item = st) (sorted_records tm s)"
    by (simp_all add: sorted_records_def filtered_records_def)
  have c: "\<forall>i. 0 \<le> i \<and> i < 10 ^ MAX_STR_DIGITS \<longrightarrow> parse_cursor (Some (py_str i)) = Some i"
    using parse_cursor_py_str by blast
  have c': "\<forall>r. to_list_item r =
              \<lparr>li_jobId = jobId r, li_status = status r, li_task = task r,
               li_createdAt = createdAt r, li_startedAt = startedAt r,
               li_finishedAt = finishedAt r, li_error = error r\<rparr>"
    by (simp add: to_list_item_def)
  have d: "(\<exists>pages. follow_pages tm rid status_filter 1 clock None s = Some pages
               \<and> length pages = length ?rs
               \<and> (\<forall>p \<in> set pages. length p = 1)
               \<and> concat pages = map to_list_item ?rs
               \<and> distinct (concat pages))
            \<and> (\<forall>now \<in> set clock. \<exists>page.
                  list_jobs tm now rid status_filter 1 (Some (py_str (int (length ?rs) - 1))) s = (Inr page, s)
                  \<and> nextCursor page = None
                  \<and> items page = [to_list_item (last ?rs)])"
    if n: "1 \<le> length ?rs"
  proof
    from n enough obtain now0 where now0: "now0 \<in> set clock" by (cases clock) auto
    have "length (jobs s) \<le> 200"
      using wf fixed now0 by (intro length_fixed_store [of s tm now0]) (auto simp: store_wf_def)
    then have "length ?rs \<le> 200"
      using length_filtered_records [of tm status_filter s] by linarith
    then have bound: "int (length ?rs) < 10 ^ MAX_STR_DIGITS" by (rule below_limit)
    have "follow_pages tm rid status_filter 1 clock None s =
            Some (map (\<lambda>r. [to_list_item r]) (drop 0 ?rs))"
      using fixed _ _ _ bound by (rule follow_pages_from) (use n enough in \<open>auto simp: parse_cursor_None\<close>)
    then have f: "follow_pages tm rid status_filter 1 clock None s = Some (map (\<lambda>r. [to_list_item r]) ?rs)"
      by simp
    show "\<exists>pages. follow_pages tm rid status_filter 1 clock None s = Some pages
               \<and> length pages = length ?rs
               \<and> (\<forall>p \<in> set pages. length p = 1)
               \<and> concat pages = map to_list_item ?rs
               \<and> distinct (concat pages)"
      unfolding f using distinct_jobIds [OF wf, of tm status_filter]
      by (auto simp: concat_singletons)
  next
    show "\<forall>now \<in> set clock. \<exists>page.
                  list_jobs tm now rid status_filter 1 (Some (py_str (int (length ?rs) - 1))) s = (Inr page, s)
                  \<and> nextCursor page = None
                  \<and> items page = [to_list_item (last ?rs)]"
    proof
      fix now assume now: "now \<in> set clock"
      have "length (jobs s) \<le> 200"
        using wf fixed now by (intro length_fixed_store [of s tm now]) (auto simp: store_wf_def)
      then have "length ?rs \<le> 200"
        using length_filtered_records [of tm status_filter s] by linarith
      then have "int (length ?rs) < 10 ^ MAX_STR_DIGITS" by (rule below_limit)
      then have pc: "parse_cursor (Some (py_str (int (length ?rs) - 1))) = Some (int (length ?rs) - 1)"
        using n by (intro parse_cursor_py_str) linarith+
      have ne: "?rs \<noteq> []"
      proof
        assume "?rs = []"
        with n show False by simp
      qed
      have dr: "drop (length ?rs - Suc 0) ?rs = [last ?rs]"
        using ne by (metis One_nat_def append_butlast_last_id append_eq_conv_conj length_butlast)
      have nn: "nat (int (length ?rs) - 1) = length ?rs - Suc 0" by simp
      from a now pc have "list_jobs tm now rid status_filter 1 (Some (py_str (int (length ?rs) - 1))) s =
              (Inr \<lparr>items = map to_list_item (take (nat 1) (drop (nat (int (length ?rs) - 1)) ?rs)),
                     nextCursor = (if int (length ?rs) - 1 + 1 < int (length ?rs)
                                   then Some (py_str (int (length ?rs) - 1 + 1)) else None),
                     lr_requestId = rid\<rparr>, s)"
        by simp
      then show "\<exists>page. list_jobs tm now rid status_filter 1 (Some (py_str (int (length ?rs) - 1))) s = (Inr page, s)
                  \<and> nextCursor page = None
                  \<and> items page = [to_list_item (last ?rs)]"
        unfolding nn dr by simp
    qed
  qed
  from a sorted_records_descending [of tm s] b parse_cursor_None c c' d show ?thesis by blast
qed

lemma follow_pages_partition_demo:
  "cleanup_jobs stamp_table 2500 demo_store = demo_store
   \<and> cleanup_jobs stamp_table 2600 demo_store = demo_store
   \<and> cleanup_jobs stamp_table 2700 demo_store = demo_store
   \<and> store_wf demo_store
   \<and> length (filtered_records stamp_table None demo_store) \<le> length [2500, 2600, 2700 :: real]
   \<and> 1 \<le> length (filtered_records stamp_table None demo_store)
   \<and> map jobId (filtered_records stamp_table None demo_store) = [''b'', ''c'', ''a'']
   \<and> (\<exists>pages. follow_pages stamp_table ''r7'' None 1 [2500, 2600, 2700] None demo_store = Some pages
          \<and> length pages = 3
          \<and> map li_jobId (concat pages) = [''b'', ''c'', ''a''])"
proof -
  have fixed: "\<forall>now \<in> set [2500, 2600, 2700]. cleanup_jobs stamp_table now demo_store = demo_store"
    by (simp add: demo_store_def demo_record_def cleanup_eval)
  have wf: "store_wf demo_store"
    by (simp add: store_wf_def demo_store_def demo_record_def)
  have rs: "map jobId (filtered_records stamp_table None demo_store) = [''b'', ''c'', ''a'']"
    by (simp add: filtered_records_def sorted_records_def created_epoch_def job_time_to_epoch_def
        stamp_table_def demo_store_def demo_record_def)
  then have len: "length (filtered_records stamp_table None demo_store) = 3"
    by (metis length_map length_Cons list.size(3) numeral_3_eq_3)
  have enough: "length (filtered_records stamp_table None demo_store) \<le> length [2500, 2600, 2700 :: real]"
    using len by simp
  from follow_pages_partition [OF fixed wf enough, of "''r7''"] len
  obtain pages where p: "follow_pages stamp_table ''r7'' None 1 [2500, 2600, 2700] None demo_store = Some pages"
    "length pages = 3"
    "concat pages = map to_list_item (filtered_records stamp_table None demo_store)"
    by auto
  have "map li_jobId (concat pages) = map jobId (filtered_records stamp_table None demo_store)"
    unfolding p(3) by (simp add: to_list_item_def)
  with rs p fixed wf enough len show ?thesis by simp
qed

text \<open>A control character is not whitespace to \<open>int\<close>; a space is.\<close>

lemma parse_cursor_control_char: "parse_cursor (Some [CHR 0x1C, CHR ''7'']) = None"
  by (simp add: parse_cursor_def py_int_def strip_def is_space_def Let_def is_digit_def)

lemma parse_cursor_padded: "parse_cursor (Some '' 7'') = Some 7"
  by (simp add: parse_cursor_def py_int_def strip_def is_space_def Let_def is_digit_def
      digits_value_def digit_val_def MAX_STR_DIGITS_def)



section \<open>The state machine: proofs\<close>

lemma system_inv_iff:
  "system_inv sys \<longleftrightarrow>
     distinct (map fst (jobs (jobstore sys)))
     \<and> (\<forall>j r. job_of sys j = Some r \<longrightarrow> job_ok sys j r)
     \<and> scheduled sys \<inter> executing sys = {}
     \<and> scheduled sys \<subseteq> issued sys \<and> executing sys \<subseteq> issued sys"
  (is "?L \<longleftrightarrow> ?R")
proof
  assume ?L
  then show ?R unfolding system_inv_def job_of_def
    by (auto dest!: map_of_SomeD)
next
  assume r: ?R
  then have d: "distinct (map fst (jobs (jobstore sys)))" by simp
  have "\<And>item. item \<in> set (jobs (jobstore sys)) \<Longrightarrow> job_of sys (fst item) = Some (snd item)"
    using d by (simp add: job_of_def)
  with r show ?L unfolding system_inv_def by blast
qed

lemma job_ok_jobstore [simp]: "job_ok (sys\<lparr>jobstore := x\<rparr>) = job_ok sys"
  by (intro ext) (simp add: job_ok_def)

lemma job_of_jobstore [simp]: "job_of (sys\<lparr>jobstore := x\<rparr>) j = map_of (jobs x) j"
  by (simp add: job_of_def)

lemma distinct_cleanup:
  "distinct (map fst (jobs s)) \<Longrightarrow> distinct (map fst (jobs (cleanup_jobs tm now s)))"
proof -
  assume d: "distinct (map fst (jobs s))"
  obtain Q where Q: "jobs (cleanup_jobs tm now s) = filter Q (jobs s)"
    using jobs_cleanup_filter by blast
  show ?thesis unfolding Q using d by (rule distinct_map_filter)
qed

lemma system_inv_cleanup:
  assumes "system_inv sys"
  shows "system_inv (sys\<lparr>jobstore := cleanup_jobs tm now (jobstore sys)\<rparr>)"
  using assms distinct_cleanup [of "jobstore sys" tm now]
    map_of_cleanup_Some [of "jobstore sys" tm now]
  unfolding system_inv_iff by (auto simp: job_of_def)

text \<open>Writing a record under a key of the store.\<close>

lemma system_inv_update:
  assumes inv: "system_inv sys"
    and ok: "job_ok sys j r"
  shows "system_inv (sys\<lparr>jobstore := (jobstore sys)\<lparr>jobs := AList.update j r (jobs (jobstore sys))\<rparr>\<rparr>)"
  using assms unfolding system_inv_iff
  by (simp add: job_of_def update_conv' distinct_update)


lemma snd_get_job_status: "snd (get_job_status tm now rid job_id s) = cleanup_jobs tm now s"
  by (simp add: get_job_status_def Let_def split: option.splits)

lemma snd_get_job_result: "snd (get_job_result tm now rid job_id s) = cleanup_jobs tm now s"
  by (simp add: get_job_result_def Let_def split: option.splits)

lemma snd_health: "snd (health tm now rid s) = cleanup_jobs tm now s"
  by (simp add: health_def Let_def)

lemma snd_list_jobs:
  "snd (list_jobs tm now rid status_filter limit cursor s) = cleanup_jobs tm now s
   \<or> snd (list_jobs tm now rid status_filter limit cursor s) = s"
  by (simp add: list_jobs_def Let_def split: option.splits)

lemma snd_cancel_job:
  "snd (cancel_job tm now stamp rid job_id s) =
     (case map_of (jobs (cleanup_jobs tm now s)) job_id of
        None \<Rightarrow> cleanup_jobs tm now s
      | Some r \<Rightarrow>
          if status r \<in> {Pending, Running}
          then (cleanup_jobs tm now s)\<lparr>jobs := AList.update job_id
                 (r\<lparr>status := Canceled, error := Some ''job canceled by user'', finishedAt := Some stamp\<rparr>)
                 (jobs (cleanup_jobs tm now s))\<rparr>
          else cleanup_jobs tm now s)"
proof (cases "map_of (jobs (cleanup_jobs tm now s)) job_id")
  case None
  then show ?thesis by (simp add: cancel_job_def Let_def)
next
  case (Some r)
  then show ?thesis
    by (cases "status r") (simp_all add: cancel_job_def Let_def mark_job_finished_def)
qed

lemma fire_reads_inv:
  assumes "system_inv sys"
  shows "system_inv (sys\<lparr>jobstore := snd (get_job_status tm now rid job_id (jobstore sys))\<rparr>)"
    and "system_inv (sys\<lparr>jobstore := snd (get_job_result tm now rid job_id (jobstore sys))\<rparr>)"
    and "system_inv (sys\<lparr>jobstore := snd (health tm now rid (jobstore sys))\<rparr>)"
    and "system_inv (sys\<lparr>jobstore := snd (list_jobs tm now rid status_filter limit cursor (jobstore sys))\<rparr>)"
  using system_inv_cleanup [OF assms, of tm now] assms
    snd_list_jobs [of tm now rid status_filter limit cursor "jobstore sys"]
  by (auto simp: snd_get_job_status snd_get_job_result snd_health)

lemma job_ok_canceled:
  assumes "job_ok sys j r" and "status r \<in> {Pending, Running}"
  shows "job_ok sys j (r\<lparr>status := Canceled, error := Some ''job canceled by user'', finishedAt := Some stamp\<rparr>)"
  using assms by (auto simp: job_ok_def record_ok_def)

lemma fire_cancel_inv:
  assumes inv: "system_inv sys"
  shows "system_inv (sys\<lparr>jobstore := snd (cancel_job tm now stamp rid job_id (jobstore sys))\<rparr>)"
proof -
  let ?c = "sys\<lparr>jobstore := cleanup_jobs tm now (jobstore sys)\<rparr>"
  have c: "system_inv ?c" using inv by (rule system_inv_cleanup)
  show ?thesis
  proof (cases "map_of (jobs (cleanup_jobs tm now (jobstore sys))) job_id")
    case None
    then show ?thesis using c by (simp add: snd_cancel_job)
  next
    case (Some r)
    show ?thesis
    proof (cases "status r \<in> {Pending, Running}")
      case False
      then show ?thesis using c Some by (simp add: snd_cancel_job)
    next
      case True
      have "job_ok ?c job_id r" using c Some by (simp add: system_inv_iff)
      then have "job_ok ?c job_id (r\<lparr>status := Canceled, error := Some ''job canceled by user'', finishedAt := Some stamp\<rparr>)"
        using True by (rule job_ok_canceled)
      with c have "system_inv (?c\<lparr>jobstore := (jobstore ?c)\<lparr>jobs := AList.update job_id
         (r\<lparr>status := Canceled, error := Some ''job canceled by user'', finishedAt := Some stamp\<rparr>) (jobs (jobstore ?c))\<rparr>\<rparr>)"
        by (rule system_inv_update)
      then show ?thesis using Some True by (simp add: snd_cancel_job)
    qed
  qed
qed

lemma system_inv_unschedule:
  assumes inv: "system_inv sys"
    and np: "\<forall>r. job_of sys j = Some r \<longrightarrow> status r \<noteq> Pending"
  shows "system_inv (sys\<lparr>scheduled := scheduled sys - {j}\<rparr>)"
  using assms unfolding system_inv_iff
  by (auto simp: job_of_def job_ok_def)

lemma system_inv_unexecute:
  assumes inv: "system_inv sys"
    and np: "\<forall>r. job_of sys j = Some r \<longrightarrow> status r \<noteq> Running"
  shows "system_inv (sys\<lparr>executing := executing sys - {j}\<rparr>)"
  using assms unfolding system_inv_iff
  by (auto simp: job_of_def job_ok_def)

lemma system_inv_begin_go:
  assumes inv: "system_inv sys"
    and r: "job_of sys j = Some r" "status r = Pending"
  shows "system_inv (sys\<lparr>jobstore := (jobstore sys)\<lparr>jobs := AList.update j
            (r\<lparr>status := Running, startedAt := Some stamp\<rparr>) (jobs (jobstore sys))\<rparr>,
          scheduled := scheduled sys - {j}, executing := insert j (executing sys)\<rparr>)"
proof -
  from inv r have ok: "job_ok sys j r" by (simp add: system_inv_iff)
  with r have js: "j \<in> scheduled sys" by (simp add: job_ok_def)
  with inv have je: "j \<notin> executing sys" unfolding system_inv_iff by blast
  show ?thesis
    unfolding system_inv_iff
  proof (intro conjI allI impI)
    show "distinct (map fst (jobs (jobstore (sys\<lparr>jobstore := (jobstore sys)\<lparr>jobs := AList.update j
            (r\<lparr>status := Running, startedAt := Some stamp\<rparr>) (jobs (jobstore sys))\<rparr>,
          scheduled := scheduled sys - {j}, executing := insert j (executing sys)\<rparr>))))"
      using inv by (simp add: system_inv_iff distinct_update)
  next
    fix k q
    assume "job_of (sys\<lparr>jobstore := (jobstore sys)\<lparr>jobs := AList.update j
            (r\<lparr>status := Running, startedAt := Some stamp\<rparr>) (jobs (jobstore sys))\<rparr>,
          scheduled := scheduled sys - {j}, executing := insert j (executing sys)\<rparr>) k = Some q"
    then have q: "(k = j \<and> q = r\<lparr>status := Running, startedAt := Some stamp\<rparr>)
                  \<or> (k \<noteq> j \<and> job_of sys k = Some q)"
      by (auto simp: job_of_def update_conv' split: if_splits)
    then show "job_ok (sys\<lparr>jobstore := (jobstore sys)\<lparr>jobs := AList.update j
            (r\<lparr>status := Running, startedAt := Some stamp\<rparr>) (jobs (jobstore sys))\<rparr>,
          scheduled := scheduled sys - {j}, executing := insert j (executing sys)\<rparr>) k q"
    proof
      assume "k = j \<and> q = r\<lparr>status := Running, startedAt := Some stamp\<rparr>"
      then show ?thesis using ok r by (simp add: job_ok_def record_ok_def)
    next
      assume a: "k \<noteq> j \<and> job_of sys k = Some q"
      with inv have "job_ok sys k q" by (simp add: system_inv_iff)
      with a show ?thesis by (auto simp: job_ok_def)
    qed
  qed (use inv js je in \<open>auto simp: system_inv_iff\<close>)
qed

lemma system_inv_end_write:
  assumes inv: "system_inv sys"
    and r: "job_of sys j = Some r" "status r = Running"
    and r': "jobId r' = jobId r" "record_ok r'" "status r' \<in> {Done, Failed, Timeout}"
  shows "system_inv (sys\<lparr>jobstore := (jobstore sys)\<lparr>jobs := AList.update j r' (jobs (jobstore sys))\<rparr>,
          executing := executing sys - {j}\<rparr>)"
proof -
  from inv r have ok: "job_ok sys j r" by (simp add: system_inv_iff)
  with r have je: "j \<in> executing sys" by (simp add: job_ok_def)
  with inv have js: "j \<notin> scheduled sys" unfolding system_inv_iff by blast
  show ?thesis
    unfolding system_inv_iff
  proof (intro conjI allI impI)
    show "distinct (map fst (jobs (jobstore (sys\<lparr>jobstore := (jobstore sys)\<lparr>jobs := AList.update j r' (jobs (jobstore sys))\<rparr>,
          executing := executing sys - {j}\<rparr>))))"
      using inv by (simp add: system_inv_iff distinct_update)
  next
    fix k q
    assume "job_of (sys\<lparr>jobstore := (jobstore sys)\<lparr>jobs := AList.update j r' (jobs (jobstore sys))\<rparr>,
          executing := executing sys - {j}\<rparr>) k = Some q"
    then have q: "(k = j \<and> q = r') \<or> (k \<noteq> j \<and> job_of sys k = Some q)"
      by (auto simp: job_of_def update_conv' split: if_splits)
    then show "job_ok (sys\<lparr>jobstore := (jobstore sys)\<lparr>jobs := AList.update j r' (jobs (jobstore sys))\<rparr>,
          executing := executing sys - {j}\<rparr>) k q"
    proof
      assume "k = j \<and> q = r'"
      then show ?thesis using ok r r' js by (auto simp: job_ok_def)
    next
      assume a: "k \<noteq> j \<and> job_of sys k = Some q"
      with inv have "job_ok sys k q" by (simp add: system_inv_iff)
      with a show ?thesis by (auto simp: job_ok_def)
    qed
  qed (use inv js je in \<open>auto simp: system_inv_iff\<close>)
qed

lemma system_inv_submit:
  assumes inv: "system_inv sys"
    and new: "new_id \<notin> issued sys" "new_id \<noteq> []"
    and r: "jobId r = new_id" "status r = Pending" "record_ok r"
  shows "system_inv (sys\<lparr>jobstore := \<lparr>jobs = AList.update new_id r (jobs (jobstore sys)), jobs_by_idempotency = idx\<rparr>,
          scheduled := insert new_id (scheduled sys), issued := insert new_id (issued sys)\<rparr>)"
proof -
  from inv new have ns: "new_id \<notin> scheduled sys" "new_id \<notin> executing sys"
    unfolding system_inv_iff by blast+
  show ?thesis
    unfolding system_inv_iff
  proof (intro conjI allI impI)
    show "distinct (map fst (jobs (jobstore (sys\<lparr>jobstore := \<lparr>jobs = AList.update new_id r (jobs (jobstore sys)), jobs_by_idempotency = idx\<rparr>,
          scheduled := insert new_id (scheduled sys), issued := insert new_id (issued sys)\<rparr>))))"
      using inv by (simp add: system_inv_iff distinct_update)
  next
    fix k q
    assume "job_of (sys\<lparr>jobstore := \<lparr>jobs = AList.update new_id r (jobs (jobstore sys)), jobs_by_idempotency = idx\<rparr>,
          scheduled := insert new_id (scheduled sys), issued := insert new_id (issued sys)\<rparr>) k = Some q"
    then have q: "(k = new_id \<and> q = r) \<or> (k \<noteq> new_id \<and> job_of sys k = Some q)"
      by (auto simp: job_of_def update_conv' split: if_splits)
    then show "job_ok (sys\<lparr>jobstore := \<lparr>jobs = AList.update new_id r (jobs (jobstore sys)), jobs_by_idempotency = idx\<rparr>,
          scheduled := insert new_id (scheduled sys), issued := insert new_id (issued sys)\<rparr>) k q"
    proof
      assume "k = new_id \<and> q = r"
      then show ?thesis using r new by (auto simp: job_ok_def)
    next
      assume a: "k \<noteq> new_id \<and> job_of sys k = Some q"
      with inv have "job_ok sys k q" by (simp add: system_inv_iff)
      with a show ?thesis by (auto simp: job_ok_def)
    qed
  qed (use inv ns in \<open>auto simp: system_inv_iff\<close>)
qed

lemma process_job_begin_cases:
  "process_job_begin tm now stamp job_id s =
     (case map_of (jobs (cleanup_jobs tm now s)) job_id of
        None \<Rightarrow> (False, cleanup_jobs tm now s)
      | Some r \<Rightarrow>
          if status r = Canceled then (False, cleanup_jobs tm now s)
          else (True, (cleanup_jobs tm now s)\<lparr>jobs := AList.update job_id
                  (r\<lparr>status := Running, startedAt := Some stamp\<rparr>) (jobs (cleanup_jobs tm now s))\<rparr>))"
  by (simp add: process_job_begin_def Let_def)

text \<open>The record a finishing task writes over a record that is not canceled.\<close>

lemma process_job_end_cases:
  "process_job_end job_id outcome elapsed_s stamp s =
     (case map_of (jobs s) job_id of
        None \<Rightarrow> s
      | Some r \<Rightarrow>
          if status r = Canceled then s
          else s\<lparr>jobs := AList.update job_id
                 (case outcome of
                    Inl exc \<Rightarrow> r\<lparr>status := Failed, error := Some exc, finishedAt := Some stamp\<rparr>
                  | Inr res \<Rightarrow>
                      if elapsed_s > JOB_RUN_TIMEOUT_SECONDS
                      then r\<lparr>status := Timeout, error := Some ''job exceeded processing timeout'',
                             finishedAt := Some stamp\<rparr>
                      else r\<lparr>status := Done, finishedAt := Some stamp, result := Some res\<rparr>)
                 (jobs s)\<rparr>)"
  by (simp add: process_job_end_def mark_job_finished_def split: sum.splits option.splits)

lemma pending_of_scheduled:
  assumes inv: "system_inv sys" and j: "j \<in> scheduled sys"
    and r: "job_of sys j = Some r" "status r \<noteq> Canceled"
  shows "status r = Pending"
proof -
  from inv r have ok: "job_ok sys j r" by (simp add: system_inv_iff)
  from inv j have "j \<notin> executing sys" unfolding system_inv_iff by blast
  with ok j r(2) show ?thesis by (cases "status r") (auto simp: job_ok_def)
qed

lemma running_of_executing:
  assumes inv: "system_inv sys" and j: "j \<in> executing sys"
    and r: "job_of sys j = Some r" "status r \<noteq> Canceled"
  shows "status r = Running"
proof -
  from inv r have ok: "job_ok sys j r" by (simp add: system_inv_iff)
  from inv j have "j \<notin> scheduled sys" unfolding system_inv_iff by blast
  with ok j r(2) show ?thesis by (cases "status r") (auto simp: job_ok_def)
qed

lemma fire_begin_inv:
  assumes inv: "system_inv sys" and f: "fire tm (Begin job_id now stamp) sys = Some sys'"
  shows "system_inv sys'"
proof -
  let ?c = "sys\<lparr>jobstore := cleanup_jobs tm now (jobstore sys)\<rparr>"
  have c: "system_inv ?c" using inv by (rule system_inv_cleanup)
  from f have j: "job_id \<in> scheduled ?c" by (simp split: if_splits)
  show ?thesis
  proof (cases "map_of (jobs (cleanup_jobs tm now (jobstore sys))) job_id")
    case None
    then have "sys' = ?c\<lparr>scheduled := scheduled ?c - {job_id}\<rparr>"
      using f by (simp add: process_job_begin_cases split: if_splits)
    moreover have "system_inv (?c\<lparr>scheduled := scheduled ?c - {job_id}\<rparr>)"
      using c by (rule system_inv_unschedule) (simp add: None)
    ultimately show ?thesis by simp
  next
    case (Some r)
    show ?thesis
    proof (cases "status r = Canceled")
      case True
      then have "sys' = ?c\<lparr>scheduled := scheduled ?c - {job_id}\<rparr>"
        using f Some by (simp add: process_job_begin_cases split: if_splits)
      moreover have "system_inv (?c\<lparr>scheduled := scheduled ?c - {job_id}\<rparr>)"
        using c by (rule system_inv_unschedule) (simp add: Some True)
      ultimately show ?thesis by simp
    next
      case False
      have jr: "job_of ?c job_id = Some r" using Some by simp
      have p: "status r = Pending" using c j jr False by (rule pending_of_scheduled)
      have "sys' = ?c\<lparr>jobstore := (jobstore ?c)\<lparr>jobs := AList.update job_id
            (r\<lparr>status := Running, startedAt := Some stamp\<rparr>) (jobs (jobstore ?c))\<rparr>,
          scheduled := scheduled ?c - {job_id}, executing := insert job_id (executing ?c)\<rparr>"
        using f Some False by (simp add: process_job_begin_cases split: if_splits)
      moreover have "system_inv (?c\<lparr>jobstore := (jobstore ?c)\<lparr>jobs := AList.update job_id
            (r\<lparr>status := Running, startedAt := Some stamp\<rparr>) (jobs (jobstore ?c))\<rparr>,
          scheduled := scheduled ?c - {job_id}, executing := insert job_id (executing ?c)\<rparr>)"
        using c jr p by (rule system_inv_begin_go)
      ultimately show ?thesis by simp
    qed
  qed
qed

lemma fire_end_inv:
  assumes inv: "system_inv sys" and f: "fire tm (End job_id outcome elapsed_s stamp) sys = Some sys'"
  shows "system_inv sys'"
proof -
  from f have j: "job_id \<in> executing sys" by (simp split: if_splits)
  show ?thesis
  proof (cases "job_of sys job_id")
    case None
    then have "sys' = sys\<lparr>executing := executing sys - {job_id}\<rparr>"
      using f by (simp add: process_job_end_cases job_of_def split: if_splits)
    moreover have "system_inv (sys\<lparr>executing := executing sys - {job_id}\<rparr>)"
      using inv by (rule system_inv_unexecute) (simp add: None)
    ultimately show ?thesis by simp
  next
    case (Some r)
    show ?thesis
    proof (cases "status r = Canceled")
      case True
      then have "sys' = sys\<lparr>executing := executing sys - {job_id}\<rparr>"
        using f Some by (simp add: process_job_end_cases job_of_def split: if_splits)
      moreover have "system_inv (sys\<lparr>executing := executing sys - {job_id}\<rparr>)"
        using inv by (rule system_inv_unexecute) (simp add: Some True)
      ultimately show ?thesis by simp
    next
      case False
      have p: "status r = Running" using inv j Some False by (rule running_of_executing)
      from inv Some have ok: "job_ok sys job_id r" by (simp add: system_inv_iff)
      let ?r' = "case outcome of
                    Inl exc \<Rightarrow> r\<lparr>status := Failed, error := Some exc, finishedAt := Some stamp\<rparr>
                  | Inr res \<Rightarrow>
                      if elapsed_s > JOB_RUN_TIMEOUT_SECONDS
                      then r\<lparr>status := Timeout, error := Some ''job exceeded processing timeout'',
                             finishedAt := Some stamp\<rparr>
                      else r\<lparr>status := Done, finishedAt := Some stamp, result := Some res\<rparr>"
      have r': "jobId ?r' = jobId r" "record_ok ?r'" "status ?r' \<in> {Done, Failed, Timeout}"
        using ok p by (auto simp: job_ok_def record_ok_def split: sum.splits)
      have "sys' = sys\<lparr>jobstore := (jobstore sys)\<lparr>jobs := AList.update job_id ?r' (jobs (jobstore sys))\<rparr>,
          executing := executing sys - {job_id}\<rparr>"
        using f Some False by (simp add: process_job_end_cases job_of_def split: if_splits)
      moreover have "system_inv (sys\<lparr>jobstore := (jobstore sys)\<lparr>jobs := AList.update job_id ?r' (jobs (jobstore sys))\<rparr>,
          executing := executing sys - {job_id}\<rparr>)"
        using inv Some p r' by (rule system_inv_end_write)
      ultimately show ?thesis by simp
    qed
  qed
qed

lemma create_job_cases:
  "create_job tm now_epoch now new_id rid payload s = (res, s', sched) \<Longrightarrow>
     (sched = None \<and> (s' = s \<or> s' = cleanup_jobs tm now_epoch s))
     \<or> (\<exists>r idx req. sched = Some (new_id, req)
           \<and> s' = \<lparr>jobs = AList.update new_id r (jobs (cleanup_jobs tm now_epoch s)), jobs_by_idempotency = idx\<rparr>
           \<and> jobId r = new_id \<and> status r = Pending \<and> record_ok r)"
  by (auto simp: create_job_def Let_def record_ok_def split: if_splits option.splits)

lemma fire_submit_inv:
  assumes inv: "system_inv sys" and f: "fire tm (Submit now_epoch now new_id rid payload) sys = Some sys'"
  shows "system_inv sys'"
proof -
  let ?c = "sys\<lparr>jobstore := cleanup_jobs tm now_epoch (jobstore sys)\<rparr>"
  have c: "system_inv ?c" using inv by (rule system_inv_cleanup)
  from f have new: "new_id \<notin> issued sys" "new_id \<noteq> []" by (simp_all split: if_splits)
  obtain res s' sched where cj: "create_job tm now_epoch now new_id rid payload (jobstore sys) = (res, s', sched)"
    by (cases "create_job tm now_epoch now new_id rid payload (jobstore sys)") auto
  from create_job_cases [OF cj] show ?thesis
  proof
    assume a: "sched = None \<and> (s' = jobstore sys \<or> s' = cleanup_jobs tm now_epoch (jobstore sys))"
    then have "sys' = sys\<lparr>jobstore := s'\<rparr>" using f cj new by simp
    with a inv c show ?thesis by auto
  next
    assume "\<exists>r idx req. sched = Some (new_id, req)
           \<and> s' = \<lparr>jobs = AList.update new_id r (jobs (cleanup_jobs tm now_epoch (jobstore sys))), jobs_by_idempotency = idx\<rparr>
           \<and> jobId r = new_id \<and> status r = Pending \<and> record_ok r"
    then obtain r idx req where a: "sched = Some (new_id, req)"
        "s' = \<lparr>jobs = AList.update new_id r (jobs (cleanup_jobs tm now_epoch (jobstore sys))), jobs_by_idempotency = idx\<rparr>"
        "jobId r = new_id" "status r = Pending" "record_ok r"
      by blast
    have "sys' = ?c\<lparr>jobstore := \<lparr>jobs = AList.update new_id r (jobs (jobstore ?c)), jobs_by_idempotency = idx\<rparr>,
          scheduled := insert new_id (scheduled ?c), issued := insert new_id (issued ?c)\<rparr>"
      using f cj new a by simp
    moreover have "system_inv (?c\<lparr>jobstore := \<lparr>jobs = AList.update new_id r (jobs (jobstore ?c)), jobs_by_idempotency = idx\<rparr>,
          scheduled := insert new_id (scheduled ?c), issued := insert new_id (issued ?c)\<rparr>)"
      using c _ new(2) a(3,4,5) by (rule system_inv_submit) (use new in simp)
    ultimately show ?thesis by simp
  qed
qed

lemma fire_inv:
  assumes "system_inv sys" and "fire tm ev sys = Some sys'"
  shows "system_inv sys'"
proof (cases ev)
  case (Submit now_epoch now new_id rid payload)
  with assms show ?thesis using fire_submit_inv by blast
next
  case (Begin job_id now stamp)
  with assms show ?thesis using fire_begin_inv by blast
next
  case (End job_id outcome elapsed_s stamp)
  with assms show ?thesis using fire_end_inv by blast
next
  case (Cancel now stamp rid job_id)
  with assms show ?thesis using fire_cancel_inv [of sys tm now stamp rid job_id] by auto
next
  case (GetStatus now rid job_id)
  with assms show ?thesis using fire_reads_inv(1) [of sys tm now rid job_id] by auto
next
  case (GetResult now rid job_id)
  with assms show ?thesis using fire_reads_inv(2) [of sys tm now rid job_id] by auto
next
  case (ListJobs now rid status_filter limit cursor)
  with assms show ?thesis using fire_reads_inv(4) [of sys tm now rid status_filter limit cursor] by auto
next
  case (Health now rid)
  with assms show ?thesis using fire_reads_inv(3) [of sys tm now rid] by auto
qed

lemma run_inv:
  "system_inv sys \<Longrightarrow> run tm evs sys = Some sys' \<Longrightarrow> system_inv sys'"
proof (induction evs arbitrary: sys)
  case Nil
  then show ?case by simp
next
  case (Cons ev evs)
  then show ?case by (auto split: option.splits dest: fire_inv)
qed

lemma initial_inv: "system_inv initial"
  by (simp add: system_inv_def initial_def)

lemma run_append:
  "run tm (evs @ evs') sys = (case run tm evs sys of None \<Rightarrow> None | Some sys' \<Rightarrow> run tm evs' sys')"
  by (induction evs arbitrary: sys) (auto split: option.splits)

lemma fire_step:
  assumes inv: "system_inv sys" and f: "fire tm ev sys = Some sys'"
    and j: "j \<in> issued sys"
  shows "j \<in> issued sys'
     \<and> (job_of sys j = None \<longrightarrow> job_of sys' j = None)
     \<and> (\<forall>r r'. job_of sys j = Some r \<and> job_of sys' j = Some r' \<longrightarrow>
            r' = r \<or> edge (status r) (status r'))"
proof -
  have keep: "\<forall>q. map_of (jobs (cleanup_jobs tm now (jobstore sys))) j = Some q
                  \<longrightarrow> map_of (jobs (jobstore sys)) j = Some q" for now
    using inv map_of_cleanup_Some [of "jobstore sys" tm now j]
    by (simp add: system_inv_iff)
  have same: ?thesis
    if "jobstore sys' = cleanup_jobs tm now (jobstore sys) \<or> jobstore sys' = jobstore sys"
      and "issued sys' = issued sys" for now
    using that j keep [of now] by (auto simp: job_of_def)
  show ?thesis
  proof (cases ev)
    case (GetStatus now rid job_id)
    with f show ?thesis by (intro same [of now]) (auto simp: snd_get_job_status)
  next
    case (GetResult now rid job_id)
    with f show ?thesis by (intro same [of now]) (auto simp: snd_get_job_result)
  next
    case (Health now rid)
    with f show ?thesis by (intro same [of now]) (auto simp: snd_health)
  next
    case (ListJobs now rid status_filter limit cursor)
    with f snd_list_jobs [of tm now rid status_filter limit cursor "jobstore sys"]
    show ?thesis by (intro same [of now]) auto
  next
    case (Cancel now stamp rid job_id)
    then have s': "sys' = sys\<lparr>jobstore := snd (cancel_job tm now stamp rid job_id (jobstore sys))\<rparr>"
      using f by simp
    show ?thesis
      unfolding s' snd_cancel_job using j keep [of now]
      by (auto simp: job_of_def update_conv' edge_def split: option.splits if_splits)
  next
    case (Begin job_id now stamp)
    let ?c = "sys\<lparr>jobstore := cleanup_jobs tm now (jobstore sys)\<rparr>"
    have c: "system_inv ?c" using inv by (rule system_inv_cleanup)
    from f Begin have js: "job_id \<in> scheduled ?c" by (simp split: if_splits)
    have p: "status q = Pending"
      if "map_of (jobs (cleanup_jobs tm now (jobstore sys))) job_id = Some q" "status q \<noteq> Canceled" for q
      using c js _ that(2) by (rule pending_of_scheduled) (simp add: that(1))
    from f Begin have
      "jobstore sys' = snd (process_job_begin tm now stamp job_id (jobstore sys))" "issued sys' = issued sys"
      by (auto split: if_splits prod.splits)
    then show ?thesis
      unfolding process_job_begin_cases using j keep [of now] p
      by (auto simp: job_of_def update_conv' edge_def split: option.splits if_splits)
  next
    case (End job_id outcome elapsed_s stamp)
    from f End have je: "job_id \<in> executing sys" by (simp split: if_splits)
    have p: "status q = Running"
      if "map_of (jobs (jobstore sys)) job_id = Some q" "status q \<noteq> Canceled" for q
      using inv je _ that(2) by (rule running_of_executing) (simp add: that(1) job_of_def)
    from f End have
      "jobstore sys' = process_job_end job_id outcome elapsed_s stamp (jobstore sys)" "issued sys' = issued sys"
      by (auto split: if_splits)
    then show ?thesis
      unfolding process_job_end_cases using j p
      by (auto simp: job_of_def update_conv' edge_def split: option.splits if_splits sum.splits)
  next
    case (Submit now_epoch now new_id rid payload)
    from f Submit have new: "new_id \<notin> issued sys" by (simp split: if_splits)
    with j have ne: "j \<noteq> new_id" by auto
    obtain res s' sched where cj: "create_job tm now_epoch now new_id rid payload (jobstore sys) = (res, s', sched)"
      by (cases "create_job tm now_epoch now new_id rid payload (jobstore sys)") auto
    from f Submit cj new have st: "jobstore sys' = s'" and iss: "issued sys \<subseteq> issued sys'"
      by (auto split: if_splits option.splits)
    from create_job_cases [OF cj] ne
    have "map_of (jobs s') j = map_of (jobs (jobstore sys)) j
          \<or> map_of (jobs s') j = map_of (jobs (cleanup_jobs tm now_epoch (jobstore sys))) j"
      by (auto simp: update_conv')
    then have h: "job_of sys' j = None \<or> job_of sys' j = job_of sys j"
      using st keep [of now_epoch] unfolding job_of_def
      by (cases "map_of (jobs (cleanup_jobs tm now_epoch (jobstore sys))) j") auto
    have "j \<in> issued sys'" using iss j by auto
    with h show ?thesis by auto
  qed
qed

lemma terminal_no_edge: "terminal a \<Longrightarrow> \<not> edge a b"
  by (auto simp: terminal_def edge_def)

lemma run_frozen_aux:
  assumes "system_inv sys" and "run tm evs sys = Some sys'"
    and "j \<in> issued sys" and "job_of sys j = None \<or> job_of sys j = Some r"
    and "terminal (status r)"
  shows "job_of sys' j = None \<or> job_of sys' j = Some r"
  using assms
proof (induction evs arbitrary: sys)
  case Nil
  then show ?case by simp
next
  case (Cons ev evs)
  from Cons.prems(2) obtain mid where mid: "fire tm ev sys = Some mid" "run tm evs mid = Some sys'"
    by (auto split: option.splits)
  have inv: "system_inv mid" using Cons.prems(1) mid(1) by (rule fire_inv)
  note st = fire_step [OF Cons.prems(1) mid(1) Cons.prems(3)]
  have "job_of mid j = None \<or> job_of mid j = Some r"
  proof (cases "job_of mid j")
    case None
    then show ?thesis by simp
  next
    case (Some q)
    with st Cons.prems(4) have "job_of sys j = Some r" by auto
    with st Some have "q = r \<or> edge (status r) (status q)" by blast
    with Cons.prems(5) Some show ?thesis by (auto dest: terminal_no_edge)
  qed
  with inv mid(2) st Cons.prems(5) show ?case by (intro Cons.IH) auto
qed

lemma run_frozen:
  assumes inv: "system_inv sys" and run: "run tm evs sys = Some sys'"
    and r: "job_of sys j = Some r" "terminal (status r)"
    and r': "job_of sys' j = Some r'"
  shows "r' = r"
proof -
  from inv r(1) have "job_ok sys j r" by (simp add: system_inv_iff)
  then have "j \<in> issued sys" by (simp add: job_ok_def)
  with inv run r have "job_of sys' j = None \<or> job_of sys' j = Some r"
    by (intro run_frozen_aux [of sys tm evs sys' j r]) auto
  with r' show ?thesis by simp
qed

text \<open>
  Claim C7. In every state the service reaches from the empty one, every live record has
  \<open>startedAt\<close> unset while \<open>Pending\<close> and \<open>finishedAt\<close> unset while \<open>Pending\<close> or \<open>Running\<close>,
  a result exactly when it is \<open>Done\<close> and an error exactly when it is \<open>Failed\<close>,
  \<open>Canceled\<close> or \<open>Timeout\<close>, so never both. Every event leaves the status of a job that
  stays live as it is or moves it along an edge of the state machine. And a record in a
  terminal status is found unchanged after any further events, as long as it is live.
\<close>

theorem job_state_machine:
  assumes reach: "run tm evs initial = Some sys"
  shows "(\<forall>j r. job_of sys j = Some r \<longrightarrow>
            (status r = Pending \<longrightarrow> startedAt r = None)
          \<and> (status r \<in> {Pending, Running} \<longrightarrow> finishedAt r = None)
          \<and> (result r \<noteq> None \<longleftrightarrow> status r = Done)
          \<and> (error r \<noteq> None \<longleftrightarrow> status r \<in> {Failed, Canceled, Timeout})
          \<and> \<not> (error r \<noteq> None \<and> result r \<noteq> None))
       \<and> (\<forall>ev sys' j r r'.
            fire tm ev sys = Some sys' \<and> job_of sys j = Some r \<and> job_of sys' j = Some r' \<longrightarrow>
            status r' = status r \<or> edge (status r) (status r'))
       \<and> (\<forall>evs' sys' j r r'.
            run tm evs' sys = Some sys' \<and> job_of sys j = Some r \<and> terminal (status r)
            \<and> job_of sys' j = Some r' \<longrightarrow>
            r' = r)"
proof -
  have inv: "system_inv sys" using initial_inv reach by (rule run_inv)
  have ok: "job_ok sys j r" if "job_of sys j = Some r" for j r
    using inv that by (simp add: system_inv_iff)
  have a: "\<forall>j r. job_of sys j = Some r \<longrightarrow>
            (status r = Pending \<longrightarrow> startedAt r = None)
          \<and> (status r \<in> {Pending, Running} \<longrightarrow> finishedAt r = None)
          \<and> (result r \<noteq> None \<longleftrightarrow> status r = Done)
          \<and> (error r \<noteq> None \<longleftrightarrow> status r \<in> {Failed, Canceled, Timeout})
          \<and> \<not> (error r \<noteq> None \<and> result r \<noteq> None)"
  proof (intro allI impI)
    fix j r assume "job_of sys j = Some r"
    then have "record_ok r" using ok by (simp add: job_ok_def)
    then show "(status r = Pending \<longrightarrow> startedAt r = None)
          \<and> (status r \<in> {Pending, Running} \<longrightarrow> finishedAt r = None)
          \<and> (result r \<noteq> None \<longleftrightarrow> status r = Done)
          \<and> (error r \<noteq> None \<longleftrightarrow> status r \<in> {Failed, Canceled, Timeout})
          \<and> \<not> (error r \<noteq> None \<and> result r \<noteq> None)"
      by (cases "status r") (simp_all add: record_ok_def)
  qed
  have b: "\<forall>ev sys' j r r'.
            fire tm ev sys = Some sys' \<and> job_of sys j = Some r \<and> job_of sys' j = Some r' \<longrightarrow>
            status r' = status r \<or> edge (status r) (status r')"
  proof (intro allI impI)
    fix ev sys' j r r'
    assume h: "fire tm ev sys = Some sys' \<and> job_of sys j = Some r \<and> job_of sys' j = Some r'"
    then have "j \<in> issued sys" using ok by (simp add: job_ok_def)
    with inv h have "r' = r \<or> edge (status r) (status r')"
      using fire_step [of sys tm ev sys' j] by blast
    then show "status r' = status r \<or> edge (status r) (status r')" by auto
  qed
  have c: "\<forall>evs' sys' j r r'.
            run tm evs' sys = Some sys' \<and> job_of sys j = Some r \<and> terminal (status r)
            \<and> job_of sys' j = Some r' \<longrightarrow> r' = r"
    using run_frozen [OF inv] by blast
  from a b c show ?thesis by blast
qed

text \<open>
  Claim C1. When the first block of the execution path finds the record canceled after
  retention, it returns without starting the executor and leaves the store as retention
  left it; when the second block finds the record canceled, it leaves the store untouched,
  whether the executor returned or raised and whatever time it took. And in every run of
  the service, a job seen \<open>Canceled\<close> is, whenever it is seen again after further events,
  the same record: still \<open>Canceled\<close>, with no result.
\<close>

theorem cancellation_wins:
  "(\<forall>r. map_of (jobs (cleanup_jobs tm now s)) job_id = Some r \<and> status r = Canceled \<longrightarrow>
        process_job_begin tm now stamp job_id s = (False, cleanup_jobs tm now s))
   \<and> (\<forall>r. map_of (jobs s) job_id = Some r \<and> status r = Canceled \<longrightarrow>
        process_job_end job_id outcome elapsed_s stamp s = s)
   \<and> (\<forall>evs sys evs' sys' j r r'.
        run tm evs initial = Some sys \<and> job_of sys j = Some r \<and> status r = Canceled
        \<and> run tm evs' sys = Some sys' \<and> job_of sys' j = Some r' \<longrightarrow>
        r' = r \<and> status r' = Canceled \<and> result r' = None)"
proof (intro conjI allI impI)
  fix r assume "map_of (jobs (cleanup_jobs tm now s)) job_id = Some r \<and> status r = Canceled"
  then show "process_job_begin tm now stamp job_id s = (False, cleanup_jobs tm now s)"
    by (simp add: process_job_begin_cases)
next
  fix r assume "map_of (jobs s) job_id = Some r \<and> status r = Canceled"
  then show "process_job_end job_id outcome elapsed_s stamp s = s"
    by (simp add: process_job_end_cases)
next
  fix evs sys evs' sys' j r r'
  assume h: "run tm evs initial = Some sys \<and> job_of sys j = Some r \<and> status r = Canceled
        \<and> run tm evs' sys = Some sys' \<and> job_of sys' j = Some r'"
  then have inv: "system_inv sys" using initial_inv run_inv by blast
  with h have "job_ok sys j r" by (simp add: system_inv_iff)
  with h have res: "result r = None" by (simp add: job_ok_def record_ok_def)
  have "terminal (status r)" using h by (simp add: terminal_def)
  with inv h have eq: "r' = r" using run_frozen [of sys tm evs' sys' j r r'] by blast
  from eq show "r' = r" .
  from eq h show "status r' = Canceled" by simp
  from eq res show "result r' = None" by simp
qed

lemmas run_eval = create_job_def process_job_begin_def process_job_end_def cancel_job_def
  mark_job_finished_def existing_job_def demo_request_def demo_record_def initial_def
  JOB_RUN_TIMEOUT_SECONDS_def Let_def cleanup_eval

lemma run_done_events: "run stamp_table done_events initial = Some done_system"
  by (simp add: done_events_def done_system_def done_record_def run_eval)

lemma run_cancel_events: "run stamp_table cancel_events initial = Some canceled_system"
  by (simp add: cancel_events_def canceled_system_def canceled_record_def run_eval)

theorem job_state_machine_witness:
  "run stamp_table done_events initial = Some done_system
   \<and> job_of done_system ''a'' = Some done_record
   \<and> status done_record = Done \<and> terminal (status done_record)
   \<and> result done_record \<noteq> None \<and> error done_record = None
   \<and> run stamp_table [Cancel 2000 ''t3000'' ''r2'' ''a''] done_system = Some done_system
   \<and> fire stamp_table (Cancel 2000 ''t3000'' ''r2'' ''a'') done_system = Some done_system"
proof -
  have j: "job_of done_system ''a'' = Some done_record"
    by (simp add: job_of_def done_system_def)
  have s: "status done_record = Done" "terminal (status done_record)"
    by (simp_all add: done_record_def demo_record_def terminal_def)
  have f: "fire stamp_table (Cancel 2000 ''t3000'' ''r2'' ''a'') done_system = Some done_system"
    by (simp add: done_system_def done_record_def run_eval)
  then have r: "run stamp_table [Cancel 2000 ''t3000'' ''r2'' ''a''] done_system = Some done_system"
    by simp
  note t = job_state_machine [OF run_done_events]
  from t [THEN conjunct1, rule_format, OF j] s
  have "result done_record \<noteq> None" "error done_record = None"
    by auto
  with run_done_events j s f r show ?thesis by simp
qed

theorem cancellation_wins_witness:
  "run stamp_table cancel_events initial = Some canceled_system
   \<and> job_of canceled_system ''a'' = Some canceled_record
   \<and> status canceled_record = Canceled
   \<and> run stamp_table [End ''a'' (Inr demo_result) 1 ''t3000''] canceled_system
        = Some (canceled_system\<lparr>executing := {}\<rparr>)
   \<and> job_of (canceled_system\<lparr>executing := {}\<rparr>) ''a'' = Some canceled_record
   \<and> result canceled_record = None
   \<and> process_job_end ''a'' (Inr demo_result) 1 ''t3000'' (jobstore canceled_system) = jobstore canceled_system"
proof -
  have j: "job_of canceled_system ''a'' = Some canceled_record"
    by (simp add: job_of_def canceled_system_def)
  have s: "status canceled_record = Canceled"
    by (simp add: canceled_record_def demo_record_def)
  have r: "run stamp_table [End ''a'' (Inr demo_result) 1 ''t3000''] canceled_system
        = Some (canceled_system\<lparr>executing := {}\<rparr>)"
    by (simp add: canceled_system_def canceled_record_def run_eval)
  have j': "job_of (canceled_system\<lparr>executing := {}\<rparr>) ''a'' = Some canceled_record"
    by (simp add: job_of_def canceled_system_def)
  have m: "map_of (jobs (jobstore canceled_system)) ''a'' = Some canceled_record"
    using j by (simp add: job_of_def)
  note t = cancellation_wins [of stamp_table 0 "jobstore canceled_system" "''a''" "''t3000''"
      "Inr demo_result" 1]
  from t m s have e: "process_job_end ''a'' (Inr demo_result) 1 ''t3000'' (jobstore canceled_system) = jobstore canceled_system"
    by blast
  from t run_cancel_events j s r j' have "result canceled_record = None"
    by blast
  with run_cancel_events j s r j' e show ?thesis by simp
qed
section \<open>Runs: keys, stamps and retention\<close>

text \<open>
  What every event does to every record: a record of the state after an event is either
  the one the event created, or it continues a record of the state before, with the same
  id, task, creation stamp and key, and with a \<open>finishedAt\<close> that is the old one or the
  event's stamp.
\<close>

lemma create_job_new:
  assumes "create_job tm now_epoch now new_id rid payload s = (res, s', Some x)"
  shows "existing_job payload (cleanup_jobs tm now_epoch s) = None
       \<and> jobs s' = AList.update new_id
            \<lparr>jobId = new_id, status = Pending, task = rq_task payload, createdAt = now,
             startedAt = None, finishedAt = None, error = None, result = None,
             idempotencyKey = rq_idempotencyKey payload\<rparr> (jobs (cleanup_jobs tm now_epoch s))
       \<and> fst x = new_id"
  using assms by (auto simp: create_job_def Let_def split: if_splits option.splits)

lemma create_job_old:
  assumes "create_job tm now_epoch now new_id rid payload s = (res, s', None)"
  shows "s' = s \<or> s' = cleanup_jobs tm now_epoch s"
  using assms by (auto simp: create_job_def Let_def split: if_splits option.splits)

lemma same_job_refl [simp]: "same_job r r"
  by (simp add: same_job_def)

lemma fire_record:
  assumes inv: "system_inv sys" and f: "fire tm ev sys = Some sys'"
    and r': "job_of sys' j = Some r'"
  shows "(\<exists>r. job_of sys j = Some r \<and> same_job r r'
              \<and> (finishedAt r' = finishedAt r \<or> finishedAt r' = event_stamp ev))
       \<or> (\<exists>now_epoch now rid payload.
              ev = Submit now_epoch now j rid payload
              \<and> r' = \<lparr>jobId = j, status = Pending, task = rq_task payload, createdAt = now,
                       startedAt = None, finishedAt = None, error = None, result = None,
                       idempotencyKey = rq_idempotencyKey payload\<rparr>
              \<and> existing_job payload (cleanup_jobs tm now_epoch (jobstore sys)) = None
              \<and> jobs (jobstore sys') =
                  AList.update j r' (jobs (cleanup_jobs tm now_epoch (jobstore sys))))"
proof -
  have keep: "\<forall>q. map_of (jobs (cleanup_jobs tm now (jobstore sys))) j = Some q
                  \<longrightarrow> map_of (jobs (jobstore sys)) j = Some q" for now
    using inv map_of_cleanup_Some [of "jobstore sys" tm now j]
    by (simp add: system_inv_iff)
  have same: ?thesis
    if "jobstore sys' = cleanup_jobs tm now (jobstore sys) \<or> jobstore sys' = jobstore sys" for now
    using that r' keep [of now] by (auto simp: job_of_def)
  show ?thesis
  proof (cases ev)
    case (GetStatus now rid job_id)
    with f show ?thesis by (intro same [of now]) (auto simp: snd_get_job_status)
  next
    case (GetResult now rid job_id)
    with f show ?thesis by (intro same [of now]) (auto simp: snd_get_job_result)
  next
    case (Health now rid)
    with f show ?thesis by (intro same [of now]) (auto simp: snd_health)
  next
    case (ListJobs now rid status_filter limit cursor)
    with f snd_list_jobs [of tm now rid status_filter limit cursor "jobstore sys"]
    show ?thesis by (intro same [of now]) auto
  next
    case (Cancel now stamp rid job_id)
    then have s': "sys' = sys\<lparr>jobstore := snd (cancel_job tm now stamp rid job_id (jobstore sys))\<rparr>"
      using f by simp
    have "\<exists>r. job_of sys j = Some r \<and> same_job r r'
              \<and> (finishedAt r' = finishedAt r \<or> finishedAt r' = Some stamp)"
      using r' keep [of now] unfolding s' snd_cancel_job
      by (auto simp: job_of_def update_conv' same_job_def split: option.splits if_splits)
    then show ?thesis using Cancel by simp
  next
    case (Begin job_id now stamp)
    from f Begin have
      "jobstore sys' = snd (process_job_begin tm now stamp job_id (jobstore sys))"
      by (auto split: if_splits prod.splits)
    then have "\<exists>r. job_of sys j = Some r \<and> same_job r r' \<and> finishedAt r' = finishedAt r"
      using r' keep [of now] unfolding process_job_begin_cases
      by (auto simp: job_of_def update_conv' same_job_def split: option.splits if_splits)
    then show ?thesis by blast
  next
    case (End job_id outcome elapsed_s stamp)
    from f End have
      "jobstore sys' = process_job_end job_id outcome elapsed_s stamp (jobstore sys)"
      by (auto split: if_splits)
    then have "\<exists>r. job_of sys j = Some r \<and> same_job r r'
              \<and> (finishedAt r' = finishedAt r \<or> finishedAt r' = Some stamp)"
      using r' unfolding process_job_end_cases
      by (auto simp: job_of_def update_conv' same_job_def split: option.splits if_splits sum.splits)
    then show ?thesis using End by simp
  next
    case (Submit now_epoch now new_id rid payload)
    obtain res s' sched where cj: "create_job tm now_epoch now new_id rid payload (jobstore sys) = (res, s', sched)"
      by (cases "create_job tm now_epoch now new_id rid payload (jobstore sys)") auto
    from f Submit cj have st: "jobstore sys' = s'"
      by (auto split: if_splits option.splits)
    show ?thesis
    proof (cases sched)
      case None
      with cj have "s' = jobstore sys \<or> s' = cleanup_jobs tm now_epoch (jobstore sys)"
        using create_job_old by blast
      with st show ?thesis by (intro same [of now_epoch]) auto
    next
      case (Some x)
      note n = create_job_new [OF cj [unfolded Some]]
      show ?thesis
      proof (cases "j = new_id")
        case True
        with r' st n have "r' = \<lparr>jobId = j, status = Pending, task = rq_task payload, createdAt = now,
                       startedAt = None, finishedAt = None, error = None, result = None,
                       idempotencyKey = rq_idempotencyKey payload\<rparr>"
          by (simp add: job_of_def update_conv')
        with True n st Submit show ?thesis by simp
      next
        case False
        with r' st n have "map_of (jobs (cleanup_jobs tm now_epoch (jobstore sys))) j = Some r'"
          by (simp add: job_of_def update_conv')
        with keep [of now_epoch] have "job_of sys j = Some r'" by (simp add: job_of_def)
        then show ?thesis by auto
      qed
    qed
  qed
qed

lemma idem_unique_iff:
  assumes "distinct (map fst js)"
  shows "idem_unique js \<longleftrightarrow>
     (\<forall>j1 j2 r1 r2. map_of js j1 = Some r1 \<and> map_of js j2 = Some r2
        \<and> idempotencyKey r1 = idempotencyKey r2 \<and> idempotencyKey r1 \<noteq> None
        \<and> idempotencyKey r1 \<noteq> Some [] \<longrightarrow> j1 = j2)"
  using assms unfolding idem_unique_def by (simp add: Ball_def) blast

lemma store_wf_inv: "system_inv sys \<Longrightarrow> store_wf (jobstore sys)"
  by (auto simp: system_inv_def store_wf_def job_ok_def)

text \<open>When the replay lookup finds nothing for a non-empty key, no live record carries the key.\<close>

lemma existing_none_no_carrier:
  assumes wf: "store_wf s"
    and key: "rq_idempotencyKey payload = Some k" "k \<noteq> []"
    and ex: "existing_job payload (cleanup_jobs tm now s) = None"
    and m: "map_of (jobs (cleanup_jobs tm now s)) j = Some r"
  shows "idempotencyKey r \<noteq> Some k"
proof
  assume c: "idempotencyKey r = Some k"
  let ?c = "cleanup_jobs tm now s"
  let ?ms = "filter (\<lambda>item. idempotencyKey (snd item) = Some k) (jobs ?c)"
  have wfc: "store_wf ?c" using wf by (rule store_wf_cleanup)
  from m have "(j, r) \<in> set (jobs ?c)" by (rule map_of_SomeD)
  with c have ne: "?ms \<noteq> []" by (force simp: filter_empty_conv)
  then have l: "last ?ms \<in> set ?ms" by (rule last_in_set)
  then have mem: "last ?ms \<in> set (jobs ?c)" by simp
  have idx: "map_of (jobs_by_idempotency ?c) k = Some (fst (last ?ms))"
    using ne key(2) by (simp add: index_cleanup map_of_rebuild_index Let_def)
  from wfc mem have nn: "fst (last ?ms) \<noteq> []" unfolding store_wf_def by blast
  from wfc mem have "map_of (jobs ?c) (fst (last ?ms)) = Some (snd (last ?ms))"
    unfolding store_wf_def by simp
  with idx nn key have "existing_job payload ?c = Some (snd (last ?ms))"
    by (simp add: existing_job_def)
  with ex show False by simp
qed

lemma fire_idem_unique:
  assumes inv: "system_inv sys" and u: "idem_unique (jobs (jobstore sys))"
    and f: "fire tm ev sys = Some sys'"
  shows "idem_unique (jobs (jobstore sys'))"
proof -
  have inv': "system_inv sys'" using inv f by (rule fire_inv)
  then have d': "distinct (map fst (jobs (jobstore sys')))" by (simp add: system_inv_def)
  from inv have d: "distinct (map fst (jobs (jobstore sys)))" by (simp add: system_inv_def)
  note uu = u [unfolded idem_unique_iff [OF d], rule_format]
  show ?thesis
    unfolding idem_unique_iff [OF d']
  proof (intro allI impI)
    fix j1 j2 r1 r2
    assume a: "map_of (jobs (jobstore sys')) j1 = Some r1 \<and> map_of (jobs (jobstore sys')) j2 = Some r2
        \<and> idempotencyKey r1 = idempotencyKey r2 \<and> idempotencyKey r1 \<noteq> None
        \<and> idempotencyKey r1 \<noteq> Some []"
    then have j1: "job_of sys' j1 = Some r1" and j2: "job_of sys' j2 = Some r2"
      by (simp_all add: job_of_def)
    have o1: "(\<exists>r. job_of sys j1 = Some r \<and> same_job r r1)
       \<or> (\<exists>now_epoch now rid payload.
              ev = Submit now_epoch now j1 rid payload
              \<and> r1 = \<lparr>jobId = j1, status = Pending, task = rq_task payload, createdAt = now,
                       startedAt = None, finishedAt = None, error = None, result = None,
                       idempotencyKey = rq_idempotencyKey payload\<rparr>
              \<and> existing_job payload (cleanup_jobs tm now_epoch (jobstore sys)) = None
              \<and> jobs (jobstore sys') =
                  AList.update j1 r1 (jobs (cleanup_jobs tm now_epoch (jobstore sys))))"
      using fire_record [OF inv f j1] by blast
    have o2: "(\<exists>r. job_of sys j2 = Some r \<and> same_job r r2)
       \<or> (\<exists>now_epoch now rid payload.
              ev = Submit now_epoch now j2 rid payload
              \<and> r2 = \<lparr>jobId = j2, status = Pending, task = rq_task payload, createdAt = now,
                       startedAt = None, finishedAt = None, error = None, result = None,
                       idempotencyKey = rq_idempotencyKey payload\<rparr>
              \<and> existing_job payload (cleanup_jobs tm now_epoch (jobstore sys)) = None
              \<and> jobs (jobstore sys') =
                  AList.update j2 r2 (jobs (cleanup_jobs tm now_epoch (jobstore sys))))"
      using fire_record [OF inv f j2] by blast
    have fresh: "j1 = j2"
      if n: "ev = Submit now_epoch now j rid payload"
        "existing_job payload (cleanup_jobs tm now_epoch (jobstore sys)) = None"
        "jobs (jobstore sys') = AList.update j q (jobs (cleanup_jobs tm now_epoch (jobstore sys)))"
        "idempotencyKey q = rq_idempotencyKey payload"
      and one: "j = j1 \<or> j = j2"
      for now_epoch now j rid payload q
    proof (rule ccontr)
      assume ne: "j1 \<noteq> j2"
      from a n(3) have l1: "j1 = j \<and> r1 = q \<or> j1 \<noteq> j \<and> map_of (jobs (cleanup_jobs tm now_epoch (jobstore sys))) j1 = Some r1"
        and l2: "j2 = j \<and> r2 = q \<or> j2 \<noteq> j \<and> map_of (jobs (cleanup_jobs tm now_epoch (jobstore sys))) j2 = Some r2"
        by (auto simp: update_conv' split: if_splits)
      from a have "idempotencyKey r1 \<noteq> None" by (elim conjE)
      then obtain k where k0: "idempotencyKey r1 = Some k" by auto
      with a have k: "idempotencyKey r1 = Some k" "idempotencyKey r2 = Some k" "k \<noteq> []"
        by auto
      have wf: "store_wf (jobstore sys)" using inv by (rule store_wf_inv)
      from one ne l1 l2 obtain i r where
        i: "map_of (jobs (cleanup_jobs tm now_epoch (jobstore sys))) i = Some r" "idempotencyKey r = Some k"
        and q: "idempotencyKey q = Some k"
        using k by auto
      from q n(4) have "rq_idempotencyKey payload = Some k" by simp
      from existing_none_no_carrier [OF wf this k(3) n(2) i(1)] i(2) show False by simp
    qed
    from o1 o2 show "j1 = j2"
    proof (elim disjE exE conjE)
      fix q1 q2
      assume "job_of sys j1 = Some q1" "same_job q1 r1" "job_of sys j2 = Some q2" "same_job q2 r2"
      then have "map_of (jobs (jobstore sys)) j1 = Some q1" "map_of (jobs (jobstore sys)) j2 = Some q2"
        "idempotencyKey q1 = idempotencyKey r1" "idempotencyKey q2 = idempotencyKey r2"
        by (simp_all add: job_of_def same_job_def)
      with a show "j1 = j2" by (metis uu)
    next
      fix q1 now_epoch now rid payload
      assume "ev = Submit now_epoch now j2 rid payload"
        "existing_job payload (cleanup_jobs tm now_epoch (jobstore sys)) = None"
        "jobs (jobstore sys') = AList.update j2 r2 (jobs (cleanup_jobs tm now_epoch (jobstore sys)))"
        "r2 = \<lparr>jobId = j2, status = Pending, task = rq_task payload, createdAt = now,
                       startedAt = None, finishedAt = None, error = None, result = None,
                       idempotencyKey = rq_idempotencyKey payload\<rparr>"
      then show "j1 = j2" by (intro fresh [of now_epoch now j2 rid payload r2]) auto
    next
      fix q2 now_epoch now rid payload
      assume "ev = Submit now_epoch now j1 rid payload"
        "existing_job payload (cleanup_jobs tm now_epoch (jobstore sys)) = None"
        "jobs (jobstore sys') = AList.update j1 r1 (jobs (cleanup_jobs tm now_epoch (jobstore sys)))"
        "r1 = \<lparr>jobId = j1, status = Pending, task = rq_task payload, createdAt = now,
                       startedAt = None, finishedAt = None, error = None, result = None,
                       idempotencyKey = rq_idempotencyKey payload\<rparr>"
      then show "j1 = j2" by (intro fresh [of now_epoch now j1 rid payload r1]) auto
    next
      fix now_epoch now rid payload now_epocha nowa rida payloada
      assume "ev = Submit now_epoch now j1 rid payload" "ev = Submit now_epocha nowa j2 rida payloada"
      then show "j1 = j2" by simp
    qed
  qed
qed

lemma run_idem_unique:
  "system_inv sys \<Longrightarrow> idem_unique (jobs (jobstore sys)) \<Longrightarrow> run tm evs sys = Some sys'
     \<Longrightarrow> idem_unique (jobs (jobstore sys'))"
proof (induction evs arbitrary: sys)
  case Nil
  then show ?case by simp
next
  case (Cons ev evs)
  from Cons.prems(3) obtain mid where mid: "fire tm ev sys = Some mid" "run tm evs mid = Some sys'"
    by (auto split: option.splits)
  have "system_inv mid" using Cons.prems(1) mid(1) by (rule fire_inv)
  moreover have "idem_unique (jobs (jobstore mid))"
    using Cons.prems(1,2) mid(1) by (rule fire_idem_unique)
  ultimately show ?case using mid(2) by (rule Cons.IH)
qed

lemma initial_idem_unique: "idem_unique (jobs (jobstore initial))"
  by (simp add: idem_unique_def initial_def)

lemma same_job_trans: "same_job a b \<Longrightarrow> same_job b c \<Longrightarrow> same_job a c"
  by (simp add: same_job_def)



lemma fire_same_job:
  assumes inv: "system_inv sys" and f: "fire tm ev sys = Some sys'"
    and j: "j \<in> issued sys" and r': "job_of sys' j = Some r'"
  shows "\<exists>r. job_of sys j = Some r \<and> same_job r r'"
proof -
  from fire_record [OF inv f r'] show ?thesis
  proof
    assume "\<exists>r. job_of sys j = Some r \<and> same_job r r'
              \<and> (finishedAt r' = finishedAt r \<or> finishedAt r' = event_stamp ev)"
    then show ?thesis by blast
  next
    assume "\<exists>now_epoch now rid payload.
              ev = Submit now_epoch now j rid payload
              \<and> r' = \<lparr>jobId = j, status = Pending, task = rq_task payload, createdAt = now,
                       startedAt = None, finishedAt = None, error = None, result = None,
                       idempotencyKey = rq_idempotencyKey payload\<rparr>
              \<and> existing_job payload (cleanup_jobs tm now_epoch (jobstore sys)) = None
              \<and> jobs (jobstore sys') =
                  AList.update j r' (jobs (cleanup_jobs tm now_epoch (jobstore sys)))"
    then obtain now_epoch now rid payload where "ev = Submit now_epoch now j rid payload" by blast
    with f j show ?thesis by (simp split: if_splits)
  qed
qed

lemma run_same_job_aux:
  assumes "system_inv sys" and "run tm evs sys = Some sys'"
    and "j \<in> issued sys"
    and "job_of sys j = None \<or> (\<exists>q. job_of sys j = Some q \<and> same_job r q)"
  shows "job_of sys' j = None \<or> (\<exists>q. job_of sys' j = Some q \<and> same_job r q)"
  using assms
proof (induction evs arbitrary: sys)
  case Nil
  then show ?case by simp
next
  case (Cons ev evs)
  from Cons.prems(2) obtain mid where mid: "fire tm ev sys = Some mid" "run tm evs mid = Some sys'"
    by (auto split: option.splits)
  have inv: "system_inv mid" using Cons.prems(1) mid(1) by (rule fire_inv)
  note st = fire_step [OF Cons.prems(1) mid(1) Cons.prems(3)]
  have "job_of mid j = None \<or> (\<exists>q. job_of mid j = Some q \<and> same_job r q)"
  proof (cases "job_of mid j")
    case None
    then show ?thesis by simp
  next
    case (Some q')
    from fire_same_job [OF Cons.prems(1) mid(1) Cons.prems(3) Some]
    obtain q where q: "job_of sys j = Some q" "same_job q q'" by blast
    with Cons.prems(4) have "same_job r q" by auto
    then have "same_job r q'" using q(2) by (rule same_job_trans)
    with Some show ?thesis by simp
  qed
  with inv mid(2) st show ?case by (intro Cons.IH) auto
qed

lemma run_same_job:
  assumes inv: "system_inv sys" and run: "run tm evs sys = Some sys'"
    and r: "job_of sys j = Some r" and r': "job_of sys' j = Some r'"
  shows "same_job r r'"
proof -
  from inv r have "job_ok sys j r" by (simp add: system_inv_iff)
  then have "j \<in> issued sys" by (simp add: job_ok_def)
  with inv run r have "job_of sys' j = None \<or> (\<exists>q. job_of sys' j = Some q \<and> same_job r q)"
    by (intro run_same_job_aux [of sys tm evs sys' j r]) auto
  with r' show ?thesis by simp
qed

lemma create_job_no_key:
  assumes "rq_task payload = ''detect-objects''"
    and "rq_idempotencyKey payload = None \<or> rq_idempotencyKey payload = Some []"
  shows "create_job tm now_epoch now new_id rid payload s =
           (Inr \<lparr>cr_jobId = new_id, cr_status = Pending, cr_acceptedAt = now, cr_requestId = rid\<rparr>,
            \<lparr>jobs = AList.update new_id
                      \<lparr>jobId = new_id, status = Pending, task = ''detect-objects'', createdAt = now,
                       startedAt = None, finishedAt = None, error = None, result = None,
                       idempotencyKey = rq_idempotencyKey payload\<rparr>
                      (jobs (cleanup_jobs tm now_epoch s)),
             jobs_by_idempotency = jobs_by_idempotency (cleanup_jobs tm now_epoch s)\<rparr>,
            Some (new_id, \<lparr>imageBase64 = rq_imageBase64 payload, minScore = rq_minScore payload,
                            debugSleepMs = rq_debugSleepMs payload\<rparr>))"
  using assms by (auto simp: create_job_def existing_job_def Let_def)

lemma replay_over_run:
  assumes inv: "system_inv sys" and u: "idem_unique (jobs (jobstore sys))"
    and p1: "rq_task payload = ''detect-objects''" "rq_idempotencyKey payload = Some k" "k \<noteq> []"
    and f: "fire tm (Submit now_epoch now new_id rid payload) sys = Some sys1"
    and first: "fst (create_job tm now_epoch now new_id rid payload (jobstore sys)) = Inr first"
    and run: "run tm evs' sys1 = Some sys2"
    and p2: "rq_task payload2 = ''detect-objects''" "rq_idempotencyKey payload2 = Some k"
    and live: "map_of (jobs (cleanup_jobs tm now_epoch2 (jobstore sys2))) (cr_jobId first) \<noteq> None"
  shows "create_job tm now_epoch2 now2 new_id2 rid2 payload2 (jobstore sys2) =
           (Inr \<lparr>cr_jobId = cr_jobId first, cr_status =
                    status (the (map_of (jobs (cleanup_jobs tm now_epoch2 (jobstore sys2))) (cr_jobId first))),
                  cr_acceptedAt = cr_acceptedAt first, cr_requestId = rid2\<rparr>,
            cleanup_jobs tm now_epoch2 (jobstore sys2), None)"
proof -
  let ?P = "\<lambda>item. idempotencyKey (snd item) = Some k"
  let ?s1 = "fst (snd (create_job tm now_epoch now new_id rid payload (jobstore sys)))"
  let ?J = "cr_jobId first"
  from f have new: "new_id \<noteq> []" by (simp split: if_splits)
  from f have s1: "jobstore sys1 = ?s1" by (auto split: if_splits prod.splits option.splits)
  have wf: "store_wf (jobstore sys)" using inv by (rule store_wf_inv)
  from create_job_carries_key [OF wf p1(1,2,3) new, of tm now_epoch now rid] first
  obtain r1 where ne: "filter ?P (jobs ?s1) \<noteq> []"
    and l: "last (filter ?P (jobs ?s1)) = (?J, r1)" and cr: "createdAt r1 = cr_acceptedAt first"
    by auto
  have inv1: "system_inv sys1" using inv f by (rule fire_inv)
  have u1: "idem_unique (jobs (jobstore sys1))" using inv u f by (rule fire_idem_unique)
  have "last (filter ?P (jobs ?s1)) \<in> set (filter ?P (jobs ?s1))" using ne by (rule last_in_set)
  with l have mem: "(?J, r1) \<in> set (jobs (jobstore sys1))" and k1: "idempotencyKey r1 = Some k"
    unfolding s1 by auto
  from inv1 mem have j1: "job_of sys1 ?J = Some r1" by (simp add: system_inv_def job_of_def)
  have inv2: "system_inv sys2" using inv1 run by (rule run_inv)
  have u2: "idem_unique (jobs (jobstore sys2))" using inv1 u1 run by (rule run_idem_unique)
  let ?c = "cleanup_jobs tm now_epoch2 (jobstore sys2)"
  from live obtain r2 where r2: "map_of (jobs ?c) ?J = Some r2" by auto
  have d2: "distinct (map fst (jobs (jobstore sys2)))" using inv2 by (simp add: system_inv_def)
  from d2 r2 have "job_of sys2 ?J = Some r2" unfolding job_of_def by (rule map_of_cleanup_Some)
  with inv1 run j1 have same: "same_job r1 r2" by (rule run_same_job)
  with k1 cr have k2: "idempotencyKey r2 = Some k" and c2: "createdAt r2 = cr_acceptedAt first"
    by (simp_all add: same_job_def)
  have uc: "idem_unique (jobs ?c)" using u2 set_cleanup_subset by (rule idem_unique_subset)
  from r2 have "(?J, r2) \<in> set (jobs ?c)" by (rule map_of_SomeD)
  with k2 p1(3) have idx: "map_of (jobs_by_idempotency ?c) k = Some ?J"
    unfolding index_cleanup map_of_rebuild_index_unique [OF uc] by blast
  have wf2: "store_wf (jobstore sys2)" using inv2 by (rule store_wf_inv)
  from create_job_replay_hit [OF wf2 p2 idx r2, of now2 new_id2 rid2] r2 c2
  show ?thesis by simp
qed










text \<open>
  Claim C3, as the code has it. In every state \<open>sys\<close> that a run of the service reaches,
  the store is well formed. On a well-formed store and for a request that passed
  validation: when the request's key, after retention, is indexed to a live record,
  \<open>create_job\<close> answers with that record's id, its current status and its \<open>createdAt\<close>,
  leaves the store as retention left it and schedules nothing. When a first submission
  made in \<open>sys\<close> carries a non-empty key and is answered with \<open>first\<close>, then after any further
  events whatever (other submissions, tasks beginning and ending, cancellations, reads,
  each with its retention pass), a submission with the same key made while the first
  one's job is still live after retention is answered with the same job id and the same
  \<open>acceptedAt\<close>, writes no record and schedules no task. And a submission without a key,
  or with the empty string for a key, always creates a new \<open>Pending\<close> record under the
  fresh id, stamped with the current time, and schedules its task.
\<close>

theorem create_job_replay:
  assumes reach: "run tm evs initial = Some sys"
  shows "store_wf (jobstore sys)
   \<and> (\<forall>s (payload :: JobCreateRequest) k job_id r now_epoch now new_id rid.
        store_wf s \<and> rq_task payload = ''detect-objects'' \<and> rq_idempotencyKey payload = Some k
        \<and> map_of (jobs_by_idempotency (cleanup_jobs tm now_epoch s)) k = Some job_id
        \<and> map_of (jobs (cleanup_jobs tm now_epoch s)) job_id = Some r \<longrightarrow>
        create_job tm now_epoch now new_id rid payload s =
          (Inr \<lparr>cr_jobId = job_id, cr_status = status r, cr_acceptedAt = createdAt r,
                 cr_requestId = rid\<rparr>, cleanup_jobs tm now_epoch s, None)
        \<and> jobId r = job_id)
   \<and> (\<forall>(payload :: JobCreateRequest) k now_epoch now new_id rid first sys1 evs' sys2
         (payload2 :: JobCreateRequest) now_epoch2 now2 new_id2 rid2.
        rq_task payload = ''detect-objects'' \<and> rq_idempotencyKey payload = Some k \<and> k \<noteq> []
        \<and> fire tm (Submit now_epoch now new_id rid payload) sys = Some sys1
        \<and> fst (create_job tm now_epoch now new_id rid payload (jobstore sys)) = Inr first
        \<and> run tm evs' sys1 = Some sys2
        \<and> rq_task payload2 = ''detect-objects'' \<and> rq_idempotencyKey payload2 = Some k
        \<and> map_of (jobs (cleanup_jobs tm now_epoch2 (jobstore sys2))) (cr_jobId first) \<noteq> None \<longrightarrow>
        (\<exists>second. create_job tm now_epoch2 now2 new_id2 rid2 payload2 (jobstore sys2) =
                     (Inr second, cleanup_jobs tm now_epoch2 (jobstore sys2), None)
            \<and> cr_jobId second = cr_jobId first
            \<and> cr_acceptedAt second = cr_acceptedAt first))
   \<and> (\<forall>s (payload :: JobCreateRequest) now_epoch now new_id rid.
        rq_task payload = ''detect-objects''
        \<and> (rq_idempotencyKey payload = None \<or> rq_idempotencyKey payload = Some []) \<longrightarrow>
        create_job tm now_epoch now new_id rid payload s =
           (Inr \<lparr>cr_jobId = new_id, cr_status = Pending, cr_acceptedAt = now, cr_requestId = rid\<rparr>,
            \<lparr>jobs = AList.update new_id
                      \<lparr>jobId = new_id, status = Pending, task = ''detect-objects'', createdAt = now,
                       startedAt = None, finishedAt = None, error = None, result = None,
                       idempotencyKey = rq_idempotencyKey payload\<rparr>
                      (jobs (cleanup_jobs tm now_epoch s)),
             jobs_by_idempotency = jobs_by_idempotency (cleanup_jobs tm now_epoch s)\<rparr>,
            Some (new_id, \<lparr>imageBase64 = rq_imageBase64 payload, minScore = rq_minScore payload,
                            debugSleepMs = rq_debugSleepMs payload\<rparr>)))"
proof -
  have inv: "system_inv sys" using initial_inv reach by (rule run_inv)
  have u: "idem_unique (jobs (jobstore sys))"
    using initial_inv initial_idem_unique reach by (rule run_idem_unique)
  have a: "store_wf (jobstore sys)" using inv by (rule store_wf_inv)
  have b: "\<forall>s (payload :: JobCreateRequest) k job_id r now_epoch now new_id rid.
        store_wf s \<and> rq_task payload = ''detect-objects'' \<and> rq_idempotencyKey payload = Some k
        \<and> map_of (jobs_by_idempotency (cleanup_jobs tm now_epoch s)) k = Some job_id
        \<and> map_of (jobs (cleanup_jobs tm now_epoch s)) job_id = Some r \<longrightarrow>
        create_job tm now_epoch now new_id rid payload s =
          (Inr \<lparr>cr_jobId = job_id, cr_status = status r, cr_acceptedAt = createdAt r,
                 cr_requestId = rid\<rparr>, cleanup_jobs tm now_epoch s, None)
        \<and> jobId r = job_id"
  proof (intro allI impI)
    fix s and payload :: JobCreateRequest and k job_id r now_epoch now new_id rid
    assume h: "store_wf s \<and> rq_task payload = ''detect-objects'' \<and> rq_idempotencyKey payload = Some k
        \<and> map_of (jobs_by_idempotency (cleanup_jobs tm now_epoch s)) k = Some job_id
        \<and> map_of (jobs (cleanup_jobs tm now_epoch s)) job_id = Some r"
    then have "store_wf (cleanup_jobs tm now_epoch s)" using store_wf_cleanup by blast
    with h have "jobId r = job_id" using store_wf_lookup by blast
    moreover from h have "create_job tm now_epoch now new_id rid payload s =
          (Inr \<lparr>cr_jobId = job_id, cr_status = status r, cr_acceptedAt = createdAt r,
                 cr_requestId = rid\<rparr>, cleanup_jobs tm now_epoch s, None)"
      using create_job_replay_hit by blast
    ultimately show "create_job tm now_epoch now new_id rid payload s =
          (Inr \<lparr>cr_jobId = job_id, cr_status = status r, cr_acceptedAt = createdAt r,
                 cr_requestId = rid\<rparr>, cleanup_jobs tm now_epoch s, None)
        \<and> jobId r = job_id" by simp
  qed
  have c: "\<forall>(payload :: JobCreateRequest) k now_epoch now new_id rid first sys1 evs' sys2
         (payload2 :: JobCreateRequest) now_epoch2 now2 new_id2 rid2.
        rq_task payload = ''detect-objects'' \<and> rq_idempotencyKey payload = Some k \<and> k \<noteq> []
        \<and> fire tm (Submit now_epoch now new_id rid payload) sys = Some sys1
        \<and> fst (create_job tm now_epoch now new_id rid payload (jobstore sys)) = Inr first
        \<and> run tm evs' sys1 = Some sys2
        \<and> rq_task payload2 = ''detect-objects'' \<and> rq_idempotencyKey payload2 = Some k
        \<and> map_of (jobs (cleanup_jobs tm now_epoch2 (jobstore sys2))) (cr_jobId first) \<noteq> None \<longrightarrow>
        (\<exists>second. create_job tm now_epoch2 now2 new_id2 rid2 payload2 (jobstore sys2) =
                     (Inr second, cleanup_jobs tm now_epoch2 (jobstore sys2), None)
            \<and> cr_jobId second = cr_jobId first
            \<and> cr_acceptedAt second = cr_acceptedAt first)"
  proof (intro allI impI)
    fix payload :: JobCreateRequest and k now_epoch now new_id rid first sys1 evs' sys2
      and payload2 :: JobCreateRequest and now_epoch2 now2 new_id2 rid2
    assume h: "rq_task payload = ''detect-objects'' \<and> rq_idempotencyKey payload = Some k \<and> k \<noteq> []
        \<and> fire tm (Submit now_epoch now new_id rid payload) sys = Some sys1
        \<and> fst (create_job tm now_epoch now new_id rid payload (jobstore sys)) = Inr first
        \<and> run tm evs' sys1 = Some sys2
        \<and> rq_task payload2 = ''detect-objects'' \<and> rq_idempotencyKey payload2 = Some k
        \<and> map_of (jobs (cleanup_jobs tm now_epoch2 (jobstore sys2))) (cr_jobId first) \<noteq> None"
    then have "create_job tm now_epoch2 now2 new_id2 rid2 payload2 (jobstore sys2) =
           (Inr \<lparr>cr_jobId = cr_jobId first, cr_status =
                    status (the (map_of (jobs (cleanup_jobs tm now_epoch2 (jobstore sys2))) (cr_jobId first))),
                  cr_acceptedAt = cr_acceptedAt first, cr_requestId = rid2\<rparr>,
            cleanup_jobs tm now_epoch2 (jobstore sys2), None)"
      by (intro replay_over_run [OF inv u, of payload k tm now_epoch now new_id rid sys1 first evs' sys2 payload2])
         simp_all
    then show "\<exists>second. create_job tm now_epoch2 now2 new_id2 rid2 payload2 (jobstore sys2) =
                     (Inr second, cleanup_jobs tm now_epoch2 (jobstore sys2), None)
            \<and> cr_jobId second = cr_jobId first
            \<and> cr_acceptedAt second = cr_acceptedAt first"
      by simp
  qed
  have d: "\<forall>s (payload :: JobCreateRequest) now_epoch now new_id rid.
        rq_task payload = ''detect-objects''
        \<and> (rq_idempotencyKey payload = None \<or> rq_idempotencyKey payload = Some []) \<longrightarrow>
        create_job tm now_epoch now new_id rid payload s =
           (Inr \<lparr>cr_jobId = new_id, cr_status = Pending, cr_acceptedAt = now, cr_requestId = rid\<rparr>,
            \<lparr>jobs = AList.update new_id
                      \<lparr>jobId = new_id, status = Pending, task = ''detect-objects'', createdAt = now,
                       startedAt = None, finishedAt = None, error = None, result = None,
                       idempotencyKey = rq_idempotencyKey payload\<rparr>
                      (jobs (cleanup_jobs tm now_epoch s)),
             jobs_by_idempotency = jobs_by_idempotency (cleanup_jobs tm now_epoch s)\<rparr>,
            Some (new_id, \<lparr>imageBase64 = rq_imageBase64 payload, minScore = rq_minScore payload,
                            debugSleepMs = rq_debugSleepMs payload\<rparr>))"
    using create_job_no_key by blast
  from a b c d show ?thesis by blast
qed

theorem create_job_replay_witness:
  "run stamp_table [] initial = Some initial
   \<and> rq_task (demo_request (Some ''k1'')) = ''detect-objects''
   \<and> rq_idempotencyKey (demo_request (Some ''k1'')) = Some ''k1''
   \<and> fire stamp_table (Submit 1000 ''t1000'' ''a'' ''r1'' (demo_request (Some ''k1''))) initial = Some keyed_system
   \<and> fst (create_job stamp_table 1000 ''t1000'' ''a'' ''r1'' (demo_request (Some ''k1'')) (jobstore initial)) =
        Inr \<lparr>cr_jobId = ''a'', cr_status = Pending, cr_acceptedAt = ''t1000'', cr_requestId = ''r1''\<rparr>
   \<and> run stamp_table [Begin ''a'' 1500 ''t2000''] keyed_system = Some keyed_running_system
   \<and> map_of (jobs (cleanup_jobs stamp_table 2000 (jobstore keyed_running_system))) ''a'' \<noteq> None
   \<and> (\<exists>second. create_job stamp_table 2000 ''t2000'' ''b'' ''r2'' (demo_request (Some ''k1''))
                    (jobstore keyed_running_system) =
                  (Inr second, cleanup_jobs stamp_table 2000 (jobstore keyed_running_system), None)
          \<and> cr_jobId second = ''a'' \<and> cr_acceptedAt second = ''t1000'')"
proof -
  have r0: "run stamp_table [] initial = Some initial" by simp
  have p: "rq_task (demo_request (Some ''k1'')) = ''detect-objects''"
    "rq_idempotencyKey (demo_request (Some ''k1'')) = Some ''k1''"
    by (simp_all add: demo_request_def)
  have f: "fire stamp_table (Submit 1000 ''t1000'' ''a'' ''r1'' (demo_request (Some ''k1''))) initial = Some keyed_system"
    by (simp add: keyed_system_def run_eval)
  have c: "fst (create_job stamp_table 1000 ''t1000'' ''a'' ''r1'' (demo_request (Some ''k1'')) (jobstore initial)) =
        Inr \<lparr>cr_jobId = ''a'', cr_status = Pending, cr_acceptedAt = ''t1000'', cr_requestId = ''r1''\<rparr>"
    by (simp add: run_eval)
  have r: "run stamp_table [Begin ''a'' 1500 ''t2000''] keyed_system = Some keyed_running_system"
    by (simp add: keyed_system_def keyed_running_system_def run_eval)
  have l: "map_of (jobs (cleanup_jobs stamp_table 2000 (jobstore keyed_running_system))) ''a'' \<noteq> None"
    by (simp add: keyed_running_system_def run_eval)
  note t = create_job_replay [OF r0, THEN conjunct2, THEN conjunct2, THEN conjunct1, rule_format,
      of "demo_request (Some ''k1'')" "''k1''" 1000 "''t1000''" "''a''" "''r1''" keyed_system
         "\<lparr>cr_jobId = ''a'', cr_status = Pending, cr_acceptedAt = ''t1000'', cr_requestId = ''r1''\<rparr>"
         "[Begin ''a'' 1500 ''t2000'']" keyed_running_system "demo_request (Some ''k1'')" 2000
         "''t2000''" "''b''" "''r2''"]
  from t p f c r l
  have "\<exists>second. create_job stamp_table 2000 ''t2000'' ''b'' ''r2'' (demo_request (Some ''k1''))
                    (jobstore keyed_running_system) =
                  (Inr second, cleanup_jobs stamp_table 2000 (jobstore keyed_running_system), None)
          \<and> cr_jobId second = ''a'' \<and> cr_acceptedAt second = ''t1000''"
    by simp
  with r0 p f c r l show ?thesis by simp
qed

text \<open>
  Claim C3 as stated fails for the empty key: two submissions with \<open>idempotencyKey = ""\<close>,
  the first job still live at the second, are answered with two different job ids.
\<close>

theorem create_job_empty_key_counterexample:
  "rq_idempotencyKey (demo_request (Some [])) = Some []
   \<and> fst (create_job stamp_table 1000 ''t1000'' ''a'' ''r1'' (demo_request (Some [])) empty_store) =
        Inr \<lparr>cr_jobId = ''a'', cr_status = Pending, cr_acceptedAt = ''t1000'', cr_requestId = ''r1''\<rparr>
   \<and> empty_key_store = fst (snd (create_job stamp_table 1000 ''t1000'' ''a'' ''r1'' (demo_request (Some [])) empty_store))
   \<and> map_option status (map_of (jobs (cleanup_jobs stamp_table 2000 empty_key_store)) ''a'') = Some Pending
   \<and> fst (create_job stamp_table 2000 ''t2000'' ''b'' ''r2'' (demo_request (Some [])) empty_key_store) =
        Inr \<lparr>cr_jobId = ''b'', cr_status = Pending, cr_acceptedAt = ''t2000'', cr_requestId = ''r2''\<rparr>"
proof -
  have c: "cleanup_jobs stamp_table 2000 empty_key_store = empty_key_store"
    by (simp add: empty_key_store_eq cleanup_eval)
  have 1: "fst (create_job stamp_table 1000 ''t1000'' ''a'' ''r1'' (demo_request (Some [])) empty_store) =
        Inr \<lparr>cr_jobId = ''a'', cr_status = Pending, cr_acceptedAt = ''t1000'', cr_requestId = ''r1''\<rparr>"
    by (simp add: create_job_def demo_request_def empty_store_def existing_job_def cleanup_eval)
  have 2: "fst (create_job stamp_table 2000 ''t2000'' ''b'' ''r2'' (demo_request (Some [])) empty_key_store) =
        Inr \<lparr>cr_jobId = ''b'', cr_status = Pending, cr_acceptedAt = ''t2000'', cr_requestId = ''r2''\<rparr>"
    by (simp add: create_job_def Let_def c demo_request_def existing_job_def)
  have 3: "map_option status (map_of (jobs (cleanup_jobs stamp_table 2000 empty_key_store)) ''a'') = Some Pending"
    unfolding c by (simp add: empty_key_store_eq)
  show ?thesis using 1 2 3 by (simp add: demo_request_def empty_key_store_def)
qed





end
